theory Spec2Isabelle
  imports Main
begin

section \<open>The table widget of tview: data model\<close>

text \<open>
  The embedding follows \<^verbatim>\<open>table.go\<close> (package tview). A \<^verbatim>\<open>*TableCell\<close> is a
  \<open>TableCell option\<close>, \<open>None\<close> being the nil pointer; aliasing of cell objects by the
  caller is not modelled. A run-time panic is a value of type \<open>panic\<close>, and a function
  that can panic returns \<open>panic + 'a\<close>.
\<close>

subsection \<open>Go's integers\<close>

text \<open>
  Go's \<^verbatim>\<open>int\<close> is taken at 64 bits. Its values are the integers from \<open>minInt\<close> to
  \<open>maxInt\<close> (\<open>isInt\<close>), carried in the type \<open>int\<close>; addition, subtraction and
  multiplication wrap around (\<open>add64\<close>, \<open>sub64\<close>, \<open>mul64\<close>), and so do \<^verbatim>\<open>++\<close> and
  \<^verbatim>\<open>--\<close> at the two ends of the range (\<open>inc\<close>, \<open>dec\<close>). The length of a slice is an
  \<^verbatim>\<open>int\<close>, so that a slice has at most \<open>maxInt\<close> elements: \<open>len64\<close> is \<^verbatim>\<open>len\<close>, a
  longer list, which is no slice, counting as \<open>maxInt\<close>.
\<close>

definition maxInt :: int where
  "maxInt = 9223372036854775807"

definition minInt :: int where
  "minInt = - 9223372036854775808"

definition isInt :: "int \<Rightarrow> bool" where
  "isInt x \<longleftrightarrow> minInt \<le> x \<and> x \<le> maxInt"

definition wrap64 :: "int \<Rightarrow> int" where
  "wrap64 x = (x + 9223372036854775808) mod 18446744073709551616 - 9223372036854775808"

definition add64 :: "int \<Rightarrow> int \<Rightarrow> int" where
  "add64 a b = wrap64 (a + b)"

definition sub64 :: "int \<Rightarrow> int \<Rightarrow> int" where
  "sub64 a b = wrap64 (a - b)"

definition mul64 :: "int \<Rightarrow> int \<Rightarrow> int" where
  "mul64 a b = wrap64 (a * b)"

definition inc :: "int \<Rightarrow> int" where
  "inc x = (if x = maxInt then minInt else x + 1)"

definition dec :: "int \<Rightarrow> int" where
  "dec x = (if x = minInt then maxInt else x - 1)"

definition len64 :: "'a list \<Rightarrow> int" where
  "len64 xs = min (int (length xs)) maxInt"

subsection \<open>Cells and tables\<close>

record TableCell =
  Text :: string
  Align :: int
  MaxWidth :: int
  Color :: int
  Selectable :: bool

text \<open>The zero value \<^verbatim>\<open>TableCell{}\<close>, and the pointer \<^verbatim>\<open>&TableCell{}\<close>.\<close>

definition zeroCell :: TableCell where
  "zeroCell = \<lparr>Text = [], Align = 0, MaxWidth = 0, Color = 0, Selectable = False\<rparr>"

definition newCell :: "TableCell option" where
  "newCell = Some zeroCell"

datatype panic = IndexOutOfRange | NilDereference

text \<open>
  The fields \<^verbatim>\<open>selected\<close> and \<^verbatim>\<open>done\<close> hold optional callbacks; the model keeps
  whether each is non-nil (\<open>selectedFunc\<close>, \<open>doneFunc\<close>) and records their invocations in a
  trace (see \<open>InputHandler\<close>); what a callback does is outside the model. The embedded
  \<^verbatim>\<open>*Box\<close> is an external collaborator, and colours are plain numbers.
\<close>

record Table =
  borders :: bool
  bordersColor :: int
  separator :: char
  cells :: "TableCell option list list"
  lastColumn :: int
  fixedRows :: int
  fixedColumns :: int
  rowsSelectable :: bool
  columnsSelectable :: bool
  selectedRow :: int
  selectedColumn :: int
  rowOffset :: int
  columnOffset :: int
  trackEnd :: bool
  visibleRows :: int
  selectedFunc :: bool
  doneFunc :: bool

text \<open>The number of rows, \<^verbatim>\<open>len(t.cells)\<close>.\<close>

definition rowCount :: "Table \<Rightarrow> int" where
  "rowCount t = len64 (cells t)"

definition NewTable :: Table where
  "NewTable = \<lparr>borders = False, bordersColor = 15, separator = CHR '' '', cells = [],
     lastColumn = - 1, fixedRows = 0, fixedColumns = 0, rowsSelectable = False,
     columnsSelectable = False, selectedRow = 0, selectedColumn = 0, rowOffset = 0,
     columnOffset = 0, trackEnd = True, visibleRows = 0, selectedFunc = False,
     doneFunc = False\<rparr>"

definition Clear :: "Table \<Rightarrow> Table" where
  "Clear t = t\<lparr>cells := [], lastColumn := - 1\<rparr>"

definition SetBorders :: "Table \<Rightarrow> bool \<Rightarrow> Table" where
  "SetBorders t show = t\<lparr>borders := show\<rparr>"

definition SetBordersColor :: "Table \<Rightarrow> int \<Rightarrow> Table" where
  "SetBordersColor t color = t\<lparr>bordersColor := color\<rparr>"

definition SetSeparator :: "Table \<Rightarrow> char \<Rightarrow> Table" where
  "SetSeparator t sep = t\<lparr>separator := sep\<rparr>"

definition SetFixed :: "Table \<Rightarrow> int \<Rightarrow> int \<Rightarrow> Table" where
  "SetFixed t rs cs = t\<lparr>fixedRows := rs, fixedColumns := cs\<rparr>"

definition SetSelectable :: "Table \<Rightarrow> bool \<Rightarrow> bool \<Rightarrow> Table" where
  "SetSelectable t rs cs = t\<lparr>rowsSelectable := rs, columnsSelectable := cs\<rparr>"

definition SetSelected :: "Table \<Rightarrow> int \<Rightarrow> int \<Rightarrow> Table" where
  "SetSelected t row column = t\<lparr>selectedRow := row, selectedColumn := column\<rparr>"

definition SetOffset :: "Table \<Rightarrow> int \<Rightarrow> int \<Rightarrow> Table" where
  "SetOffset t row column = t\<lparr>rowOffset := row, columnOffset := column\<rparr>"

definition SetSelectedFunc :: "Table \<Rightarrow> bool \<Rightarrow> Table" where
  "SetSelectedFunc t handler = t\<lparr>selectedFunc := handler\<rparr>"

definition SetDoneFunc :: "Table \<Rightarrow> bool \<Rightarrow> Table" where
  "SetDoneFunc t handler = t\<lparr>doneFunc := handler\<rparr>"

subsection \<open>Cell store\<close>

text \<open>
  \<^verbatim>\<open>SetCell\<close>: the slice of rows is extended by empty (nil) rows up to \<open>row\<close>; indexing
  it with a negative \<open>row\<close> panics. The row is extended by \<open>column - rowLen + 1\<close> nil
  pointers of which all but the last are overwritten by \<^verbatim>\<open>&TableCell{}\<close>; position
  \<open>column\<close> then receives \<open>cell\<close>, which panics for a negative \<open>column\<close>.
\<close>

definition growRows :: "TableCell option list list \<Rightarrow> int \<Rightarrow> TableCell option list list" where
  "growRows cs row =
     (if row \<ge> int (length cs) then cs @ replicate (nat (row - int (length cs) + 1)) [] else cs)"

definition growRow :: "TableCell option list \<Rightarrow> int \<Rightarrow> TableCell option list" where
  "growRow r column =
     (let rowLen = int (length r) in
      if column \<ge> rowLen then r @ replicate (nat (column - rowLen)) newCell @ [None] else r)"

definition SetCell :: "Table \<Rightarrow> int \<Rightarrow> int \<Rightarrow> TableCell option \<Rightarrow> panic + Table" where
  "SetCell t row column cell =
     (let cs = growRows (cells t) row in
      if row < 0 then Inl IndexOutOfRange
      else let r = growRow (cs ! nat row) column in
        if column < 0 then Inl IndexOutOfRange
        else Inr (t\<lparr>cells := cs[nat row := r[nat column := cell]],
                    lastColumn := (if column > lastColumn t then column else lastColumn t)\<rparr>))"

text \<open>
  \<^verbatim>\<open>GetCell\<close>: the guard \<^verbatim>\<open>row >= len(t.cells) || column >= len(t.cells[row])\<close> is
  evaluated left to right; its second operand indexes \<^verbatim>\<open>t.cells\<close> with \<open>row\<close>, and the
  final \<^verbatim>\<open>t.cells[row][column]\<close> indexes the row with \<open>column\<close>.
\<close>

definition GetCell :: "Table \<Rightarrow> int \<Rightarrow> int \<Rightarrow> panic + TableCell option" where
  "GetCell t row column =
     (if row \<ge> int (length (cells t)) then Inr newCell
      else if row < 0 then Inl IndexOutOfRange
      else if column \<ge> int (length (cells t ! nat row)) then Inr newCell
      else if column < 0 then Inl IndexOutOfRange
      else Inr (cells t ! nat row ! nat column))"

subsection \<open>Input handling\<close>

text \<open>
  The key codes of the external package tcell that the handler distinguishes; they are
  pairwise different constants. \<open>KeyOther\<close> stands for every other key. An event carries
  its key and, for \<open>KeyRune\<close>, the rune.
\<close>

datatype Key = KeyRune | KeyEnter | KeyEscape | KeyTab | KeyBacktab | KeyHome | KeyEnd
  | KeyUp | KeyDown | KeyLeft | KeyRight | KeyPgDn | KeyPgUp | KeyCtrlF | KeyCtrlB
  | KeyOther nat

record EventKey =
  Key :: Key
  Rune :: char

text \<open>
  An invocation of one of the two callbacks, with its arguments. In the movement
  functions \<^verbatim>\<open>len(t.cells) - 1\<close> cannot wrap, the length being at least 0.
\<close>

datatype call = CallDone Key | CallSelected int int

definition home :: "Table \<Rightarrow> Table" where
  "home t =
     (if rowsSelectable t then t\<lparr>selectedRow := 0, selectedColumn := 0\<rparr>
      else t\<lparr>trackEnd := False, rowOffset := 0, columnOffset := 0\<rparr>)"

definition end' :: "Table \<Rightarrow> Table" where
  "end' t =
     (if rowsSelectable t
      then t\<lparr>selectedRow := len64 (cells t) - 1, selectedColumn := lastColumn t\<rparr>
      else t\<lparr>trackEnd := True, columnOffset := 0\<rparr>)"

definition down :: "Table \<Rightarrow> Table" where
  "down t =
     (if rowsSelectable t then
        (let t1 = t\<lparr>selectedRow := inc (selectedRow t)\<rparr> in
         if selectedRow t1 \<ge> len64 (cells t1)
         then t1\<lparr>selectedRow := len64 (cells t1) - 1\<rparr> else t1)
      else t\<lparr>rowOffset := inc (rowOffset t)\<rparr>)"

definition up :: "Table \<Rightarrow> Table" where
  "up t =
     (if rowsSelectable t then
        (let t1 = t\<lparr>selectedRow := dec (selectedRow t)\<rparr> in
         if selectedRow t1 < 0 then t1\<lparr>selectedRow := 0\<rparr> else t1)
      else t\<lparr>trackEnd := False, rowOffset := dec (rowOffset t)\<rparr>)"

definition left :: "Table \<Rightarrow> Table" where
  "left t =
     (if columnsSelectable t then
        (let t1 = t\<lparr>selectedColumn := dec (selectedColumn t)\<rparr> in
         if selectedColumn t1 < 0 then t1\<lparr>selectedColumn := 0\<rparr> else t1)
      else t\<lparr>columnOffset := dec (columnOffset t)\<rparr>)"

definition right :: "Table \<Rightarrow> Table" where
  "right t =
     (if columnsSelectable t then
        (let t1 = t\<lparr>selectedColumn := inc (selectedColumn t)\<rparr> in
         if selectedColumn t1 > lastColumn t1 then t1\<lparr>selectedColumn := lastColumn t1\<rparr>
         else t1)
      else t\<lparr>columnOffset := inc (columnOffset t)\<rparr>)"

definition pageDown :: "Table \<Rightarrow> Table" where
  "pageDown t =
     (if rowsSelectable t then
        (let t1 = t\<lparr>selectedRow := add64 (selectedRow t) (visibleRows t)\<rparr> in
         if selectedRow t1 \<ge> len64 (cells t1)
         then t1\<lparr>selectedRow := len64 (cells t1) - 1\<rparr> else t1)
      else t\<lparr>rowOffset := add64 (rowOffset t) (visibleRows t)\<rparr>)"

definition pageUp :: "Table \<Rightarrow> Table" where
  "pageUp t =
     (if rowsSelectable t then
        (let t1 = t\<lparr>selectedRow := sub64 (selectedRow t) (visibleRows t)\<rparr> in
         if selectedRow t1 < 0 then t1\<lparr>selectedRow := 0\<rparr> else t1)
      else t\<lparr>trackEnd := False, rowOffset := sub64 (rowOffset t) (visibleRows t)\<rparr>)"

text \<open>
  The handler returns the new table state and the trace of callback invocations made
  while handling the event, in order.
\<close>

definition InputHandler :: "Table \<Rightarrow> EventKey \<Rightarrow> Table \<times> call list" where
  "InputHandler t event =
     (let key = Key event in
      if (\<not> rowsSelectable t \<and> \<not> columnsSelectable t \<and> key = KeyEnter)
         \<or> key = KeyEscape \<or> key = KeyTab \<or> key = KeyBacktab
      then (t, if doneFunc t then [CallDone key] else [])
      else (case key of
          KeyRune \<Rightarrow>
            (if Rune event = CHR ''g'' then (home t, [])
             else if Rune event = CHR ''G'' then (end' t, [])
             else if Rune event = CHR ''j'' then (down t, [])
             else if Rune event = CHR ''k'' then (up t, [])
             else if Rune event = CHR ''h'' then (left t, [])
             else if Rune event = CHR ''l'' then (right t, [])
             else (t, []))
        | KeyHome \<Rightarrow> (home t, [])
        | KeyEnd \<Rightarrow> (end' t, [])
        | KeyUp \<Rightarrow> (up t, [])
        | KeyDown \<Rightarrow> (down t, [])
        | KeyLeft \<Rightarrow> (left t, [])
        | KeyRight \<Rightarrow> (right t, [])
        | KeyPgDn \<Rightarrow> (pageDown t, [])
        | KeyCtrlF \<Rightarrow> (pageDown t, [])
        | KeyPgUp \<Rightarrow> (pageUp t, [])
        | KeyCtrlB \<Rightarrow> (pageUp t, [])
        | KeyEnter \<Rightarrow>
            (t, if (rowsSelectable t \<or> columnsSelectable t) \<and> selectedFunc t
                then [CallSelected (selectedRow t) (selectedColumn t)] else [])
        | _ \<Rightarrow> (t, [])))"

text \<open>Handling a sequence of events, one after the other, collecting the trace.\<close>

fun handleAll :: "Table \<Rightarrow> EventKey list \<Rightarrow> Table \<times> call list" where
  "handleAll t [] = (t, [])"
| "handleAll t (e # es) =
     (let (t1, c1) = InputHandler t e; (t2, c2) = handleAll t1 es in (t2, c1 @ c2))"

subsection \<open>Painting: offsets, visible rows, visible columns\<close>

text \<open>
  \<^verbatim>\<open>Draw\<close> obtains \<open>width\<close> and \<open>height\<close> from \<^verbatim>\<open>GetInnerRect\<close> of the embedded box;
  they are parameters here, of any sign. Drawing the box and the call of \<^verbatim>\<open>log.Print\<close>
  touch no field of the table and are left out. Go's integer division truncates towards
  zero: \<open>half\<close> is \<^verbatim>\<open>height / 2\<close>.
\<close>

definition half :: "int \<Rightarrow> int" where
  "half h = (if h < 0 then - ((- h) div 2) else h div 2)"

definition setVisibleRows :: "Table \<Rightarrow> int \<Rightarrow> Table" where
  "setVisibleRows t height =
     (if borders t then t\<lparr>visibleRows := half height\<rparr> else t\<lparr>visibleRows := height\<rparr>)"

text \<open>The closure \<^verbatim>\<open>getCell\<close> of \<^verbatim>\<open>Draw\<close>: nil where \<^verbatim>\<open>GetCell\<close> makes a new cell.\<close>

definition getCell :: "Table \<Rightarrow> int \<Rightarrow> int \<Rightarrow> panic + TableCell option" where
  "getCell t row column =
     (if row \<ge> int (length (cells t)) then Inr None
      else if row < 0 then Inl IndexOutOfRange
      else if column \<ge> int (length (cells t ! nat row)) then Inr None
      else if column < 0 then Inl IndexOutOfRange
      else Inr (cells t ! nat row ! nat column))"

text \<open>"Clamp row offsets": the block for a row selection, then the three blocks after it.\<close>

definition selectionRowOffset :: "Table \<Rightarrow> int \<Rightarrow> Table" where
  "selectionRowOffset t height =
     (if rowsSelectable t then
        (let t1 = (if selectedRow t \<ge> fixedRows t
                      \<and> selectedRow t < add64 (fixedRows t) (rowOffset t)
                   then t\<lparr>rowOffset := sub64 (selectedRow t) (fixedRows t), trackEnd := False\<rparr>
                   else t) in
         if borders t1 then
           (if mul64 2 (sub64 (add64 (selectedRow t1) 1) (rowOffset t1)) \<ge> height
            then t1\<lparr>rowOffset := sub64 (add64 (selectedRow t1) 1) (half height),
                   trackEnd := False\<rparr>
            else t1)
         else
           (if sub64 (add64 (selectedRow t1) 1) (rowOffset t1) \<ge> height
            then t1\<lparr>rowOffset := sub64 (add64 (selectedRow t1) 1) height, trackEnd := False\<rparr>
            else t1))
      else t)"

definition fitTrackEnd :: "Table \<Rightarrow> int \<Rightarrow> Table" where
  "fitTrackEnd t height =
     (if borders t then
        (if mul64 2 (sub64 (len64 (cells t)) (rowOffset t)) < height
         then t\<lparr>trackEnd := True\<rparr> else t)
      else
        (if sub64 (len64 (cells t)) (rowOffset t) < height
         then t\<lparr>trackEnd := True\<rparr> else t))"

definition followEnd :: "Table \<Rightarrow> int \<Rightarrow> Table" where
  "followEnd t height =
     (if trackEnd t then
        (if borders t then t\<lparr>rowOffset := sub64 (len64 (cells t)) (half height)\<rparr>
         else t\<lparr>rowOffset := sub64 (len64 (cells t)) height\<rparr>)
      else t)"

definition nonNegRowOffset :: "Table \<Rightarrow> Table" where
  "nonNegRowOffset t = (if rowOffset t < 0 then t\<lparr>rowOffset := 0\<rparr> else t)"

definition clampRowOffset :: "Table \<Rightarrow> int \<Rightarrow> Table" where
  "clampRowOffset t height =
     nonNegRowOffset (followEnd (fitTrackEnd (selectionRowOffset t height) height) height)"

text \<open>"Clamp column offset" (the left side only).\<close>

definition clampColumnOffset :: "Table \<Rightarrow> Table" where
  "clampColumnOffset t =
     (let t1 = (if columnsSelectable t \<and> selectedColumn t \<ge> fixedColumns t
                   \<and> selectedColumn t < add64 (fixedColumns t) (columnOffset t)
                then t\<lparr>columnOffset := sub64 (selectedColumn t) (fixedColumns t)\<rparr> else t);
          t2 = (if columnOffset t1 < 0 then t1\<lparr>columnOffset := 0\<rparr> else t1)
      in if selectedColumn t2 < 0 then t2\<lparr>selectedColumn := 0\<rparr> else t2)"

text \<open>
  The closure \<^verbatim>\<open>indexRow\<close> works on the pair of the local variables \<^verbatim>\<open>rows\<close> and
  \<^verbatim>\<open>tableHeight\<close>; \<open>None\<close> is its result \<^verbatim>\<open>false\<close>. Both row loops have the shape
  \<^verbatim>\<open>for row := start; row < bound; row++ { if !indexRow(row) { break } }\<close>, the bound of
  the first one being the smaller of \<^verbatim>\<open>t.fixedRows\<close> and \<^verbatim>\<open>len(t.cells)\<close>. A row below
  a length is below \<open>maxInt\<close>, so that \<^verbatim>\<open>row++\<close> does not wrap;
  \<^verbatim>\<open>tableHeight += rowStep\<close> wraps around.
\<close>

definition indexRow :: "int \<Rightarrow> int \<Rightarrow> int list \<times> int \<Rightarrow> int \<Rightarrow> (int list \<times> int) option" where
  "indexRow height rowStep st row =
     (if snd st \<ge> height then None else Some (fst st @ [row], add64 (snd st) rowStep))"

function rowLoop :: "int \<Rightarrow> int \<Rightarrow> int \<Rightarrow> int \<Rightarrow> int list \<times> int \<Rightarrow> int list \<times> int" where
  "rowLoop height rowStep bound row st =
     (if row < bound then
        (case indexRow height rowStep st row of
           None \<Rightarrow> st
         | Some st1 \<Rightarrow> rowLoop height rowStep bound (row + 1) st1)
      else st)"
  by pat_completeness auto
termination
  by (relation "measure (\<lambda>(height, rowStep, bound, row, st). nat (bound - row))") auto

definition rowStepOf :: "Table \<Rightarrow> int" where
  "rowStepOf t = (if borders t then 2 else 1)"

definition visibleRowList :: "Table \<Rightarrow> int \<Rightarrow> int list" where
  "visibleRowList t height =
     (let st1 = rowLoop height (rowStepOf t) (min (fixedRows t) (len64 (cells t))) 0 ([], 0);
          st2 = rowLoop height (rowStepOf t) (len64 (cells t))
                  (add64 (fixedRows t) (rowOffset t)) st1
      in fst st2)"

text \<open>
  The local variables of the column scan. \<open>evicted\<close> is a ghost variable: the log of the
  column indices removed from \<open>columns\<close>, which the code only counts in \<open>skipped\<close>.
\<close>

record scan =
  columns :: "int list"
  widths :: "int list"
  tableWidth :: int
  lastTableWidth :: int
  skipped :: int
  evicted :: "int list"

definition initialScan :: "Table \<Rightarrow> scan" where
  "initialScan t = \<lparr>columns = [], widths = [], tableWidth = (if borders t then 1 else 0),
     lastTableWidth = 0, skipped = 0, evicted = []\<rparr>"

text \<open>
  The quantities of the column scan are column indices from 0 to \<^verbatim>\<open>t.lastColumn\<close>,
  counts of columns and sums of the widths of texts, and the selected column is not
  negative when the scan starts: its arithmetic is that of the integers, for a last
  column below \<open>maxInt\<close> and a width above \<open>minInt\<close>.
\<close>

text \<open>
  The inner loop \<^verbatim>\<open>for tableWidth-1 >= width\<close>. It ends by \<^verbatim>\<open>break ColumnLoop\<close>
  (\<open>BreakColumnLoop\<close>) or by leaving the inner loop (\<open>Measure\<close>: the candidate column is
  measured next). Removing position \<^verbatim>\<open>t.fixedColumns\<close> indexes \<^verbatim>\<open>widths\<close> and slices
  \<^verbatim>\<open>columns\<close> there.
\<close>

datatype exit = BreakColumnLoop scan | Measure scan

definition removeAt :: "nat \<Rightarrow> 'a list \<Rightarrow> 'a list" where
  "removeAt f xs = take f xs @ drop (f + 1) xs"

definition skipColumn :: "Table \<Rightarrow> scan \<Rightarrow> scan" where
  "skipColumn t s =
     (let f = nat (fixedColumns t); w = widths s ! f in
      s\<lparr>skipped := skipped s + 1,
        lastTableWidth := lastTableWidth s - (w + 1),
        tableWidth := tableWidth s - (w + 1),
        evicted := evicted s @ [columns s ! f],
        columns := removeAt f (columns s),
        widths := removeAt f (widths s)\<rparr>)"

function evictLoop :: "Table \<Rightarrow> int \<Rightarrow> int \<Rightarrow> scan \<Rightarrow> panic + exit" where
  "evictLoop t width column s =
     (if tableWidth s - 1 \<ge> width then
        (if column < fixedColumns t then Inr (BreakColumnLoop s)
         else if \<not> columnsSelectable t \<and> skipped s \<ge> columnOffset t
           then Inr (BreakColumnLoop s)
         else if columnsSelectable t \<and> selectedColumn t - skipped s = fixedColumns t
           then Inr (BreakColumnLoop s)
         else if columnsSelectable t \<and> skipped s \<ge> columnOffset t
                 \<and> (selectedColumn t < column \<and> lastTableWidth s < width - 1
                      \<or> selectedColumn t < column - 1)
           then Inr (BreakColumnLoop s)
         else if int (length (columns s)) \<le> fixedColumns t then Inr (Measure s)
         else if fixedColumns t < 0 \<or> fixedColumns t \<ge> int (length (widths s))
           then Inl IndexOutOfRange
         else evictLoop t width column (skipColumn t s))
      else Inr (Measure s))"
  by pat_completeness auto
termination
  by (relation "measure (\<lambda>(t, width, column, s). length (columns s))")
     (auto simp: skipColumn_def removeAt_def Let_def)

text \<open>"What's this column's width?": the loop over \<^verbatim>\<open>rows\<close>, \<open>maxWidth\<close> starting at -1.\<close>

fun columnWidth :: "Table \<Rightarrow> int \<Rightarrow> int list \<Rightarrow> int \<Rightarrow> panic + int" where
  "columnWidth t column [] maxWidth = Inr maxWidth"
| "columnWidth t column (row # rows) maxWidth =
     (case getCell t row column of
        Inl e \<Rightarrow> Inl e
      | Inr None \<Rightarrow> columnWidth t column rows maxWidth
      | Inr (Some cell) \<Rightarrow>
          (let cellWidth0 = int (length (Text cell));
               cellWidth = (if MaxWidth cell > 0 \<and> MaxWidth cell < cellWidth0
                            then MaxWidth cell else cellWidth0)
           in columnWidth t column rows (if cellWidth > maxWidth then cellWidth else maxWidth)))"

definition storeColumn :: "scan \<Rightarrow> int \<Rightarrow> int \<Rightarrow> scan" where
  "storeColumn s column maxWidth =
     s\<lparr>columns := columns s @ [column], widths := widths s @ [maxWidth],
       lastTableWidth := tableWidth s, tableWidth := tableWidth s + maxWidth + 1\<rparr>"

function ColumnLoop :: "Table \<Rightarrow> int \<Rightarrow> int list \<Rightarrow> int \<Rightarrow> scan \<Rightarrow> panic + scan" where
  "ColumnLoop t width rows column s =
     (if column \<le> lastColumn t then
        (case evictLoop t width column s of
           Inl e \<Rightarrow> Inl e
         | Inr (BreakColumnLoop s1) \<Rightarrow> Inr s1
         | Inr (Measure s1) \<Rightarrow>
             (case columnWidth t column rows (- 1) of
                Inl e \<Rightarrow> Inl e
              | Inr maxWidth \<Rightarrow>
                  if maxWidth < 0 then Inr s1
                  else ColumnLoop t width rows (column + 1) (storeColumn s1 column maxWidth)))
      else Inr s)"
  by pat_completeness auto
termination
  by (relation "measure (\<lambda>(t, width, rows, column, s). nat (lastColumn t + 1 - column))") auto

text \<open>
  The drawing loops write to the screen (external) and change no field of the table. They
  dereference \<^verbatim>\<open>getCell(row, column)\<close> for every visible column and row, except that with
  borders the loop over the rows of a column is left once the text line \<open>2 * rowY + 1\<close>
  is not below \<open>height\<close>. The screen and \<^verbatim>\<open>Print\<close> are taken not to panic.
\<close>

fun drawRows :: "Table \<Rightarrow> int \<Rightarrow> int \<Rightarrow> int \<Rightarrow> int list \<Rightarrow> panic + unit" where
  "drawRows t height column rowY [] = Inr ()"
| "drawRows t height column rowY (row # rows) =
     (if borders t \<and> 2 * rowY + 1 \<ge> height then Inr ()
      else (case getCell t row column of
              Inl e \<Rightarrow> Inl e
            | Inr None \<Rightarrow> Inl NilDereference
            | Inr (Some cell) \<Rightarrow> drawRows t height column (rowY + 1) rows))"

fun drawColumns :: "Table \<Rightarrow> int \<Rightarrow> int list \<Rightarrow> int list \<Rightarrow> panic + unit" where
  "drawColumns t height rows [] = Inr ()"
| "drawColumns t height rows (column # cols) =
     (case drawRows t height column 0 rows of
        Inl e \<Rightarrow> Inl e
      | Inr u \<Rightarrow> drawColumns t height rows cols)"

text \<open>
  The table as it is when the column scan starts, the scan of a paint, and the paint:
  the state after \<^verbatim>\<open>Draw\<close> returns, or the panic that ends it.
\<close>

definition clampOffsets :: "Table \<Rightarrow> int \<Rightarrow> Table" where
  "clampOffsets t height = clampColumnOffset (clampRowOffset (setVisibleRows t height) height)"

definition drawScan :: "Table \<Rightarrow> int \<Rightarrow> int \<Rightarrow> panic + scan" where
  "drawScan t width height =
     (let t1 = clampOffsets t height
      in ColumnLoop t1 width (visibleRowList t1 height) 0 (initialScan t1))"

definition Draw :: "Table \<Rightarrow> int \<Rightarrow> int \<Rightarrow> panic + Table" where
  "Draw t width height =
     (let t1 = clampOffsets t height in
      case drawScan t width height of
        Inl e \<Rightarrow> Inl e
      | Inr s \<Rightarrow>
          (let t2 = t1\<lparr>columnOffset := skipped s\<rparr> in
           case drawColumns t2 height (visibleRowList t1 height) (columns s) of
             Inl e \<Rightarrow> Inl e
           | Inr u \<Rightarrow> Inr t2))"

subsection \<open>Sequences of cell-store operations\<close>

text \<open>
  A run of \<^verbatim>\<open>SetCell\<close> and \<^verbatim>\<open>Clear\<close> calls on a table; a panic ends the run. Beside it,
  what the run has written since the last clear, read off the list of operations alone:
  \<open>written\<close> is the list of writes since the last \<open>Clr\<close>, \<open>lastWritten\<close> the cell of
  the last write at a position (\<^verbatim>\<open>&TableCell{}\<close> if there is none), \<open>maxColumn\<close>
  the largest column written (-1 if there is none). \<open>lookup\<close> reads the slice of rows
  at natural indices, a new cell standing for every position it does not hold.
\<close>

datatype storeOp = Set int int "TableCell option" | Clr

fun applyOp :: "Table \<Rightarrow> storeOp \<Rightarrow> panic + Table" where
  "applyOp t (Set row column cell) = SetCell t row column cell"
| "applyOp t Clr = Inr (Clear t)"

fun applyOps :: "Table \<Rightarrow> storeOp list \<Rightarrow> panic + Table" where
  "applyOps t [] = Inr t"
| "applyOps t (x # xs) = (case applyOp t x of Inl e \<Rightarrow> Inl e | Inr t1 \<Rightarrow> applyOps t1 xs)"

fun nonNegative :: "storeOp \<Rightarrow> bool" where
  "nonNegative (Set row column cell) \<longleftrightarrow> 0 \<le> row \<and> 0 \<le> column"
| "nonNegative Clr \<longleftrightarrow> True"

fun noteOp :: "(int \<times> int \<times> TableCell option) list \<Rightarrow> storeOp \<Rightarrow> (int \<times> int \<times> TableCell option) list" where
  "noteOp ws (Set row column cell) = ws @ [(row, column, cell)]"
| "noteOp ws Clr = []"

definition written :: "storeOp list \<Rightarrow> (int \<times> int \<times> TableCell option) list" where
  "written ops = foldl noteOp [] ops"

definition lastWritten :: "storeOp list \<Rightarrow> int \<Rightarrow> int \<Rightarrow> TableCell option" where
  "lastWritten ops row column =
     (let ws = filter (\<lambda>(r, c, x). r = row \<and> c = column) (written ops)
      in if ws = [] then newCell else snd (snd (last ws)))"

definition maxColumn :: "storeOp list \<Rightarrow> int" where
  "maxColumn ops = Max (insert (- 1) (set (map (\<lambda>(r, c, x). c) (written ops))))"

definition lookup :: "TableCell option list list \<Rightarrow> nat \<Rightarrow> nat \<Rightarrow> TableCell option" where
  "lookup cs r c = (if r < length cs \<and> c < length (cs ! r) then cs ! r ! c else newCell)"

subsection \<open>Commands and example tables\<close>

text \<open>The events that reach \<^verbatim>\<open>down()\<close>, \<^verbatim>\<open>pageDown()\<close>, and the cancelling branch.\<close>

definition downKey :: "EventKey \<Rightarrow> bool" where
  "downKey e \<longleftrightarrow> Key e = KeyDown \<or> (Key e = KeyRune \<and> Rune e = CHR ''j'')"

definition pageDownKey :: "EventKey \<Rightarrow> bool" where
  "pageDownKey e \<longleftrightarrow> Key e = KeyPgDn \<or> Key e = KeyCtrlF"

definition cancelKey :: "Table \<Rightarrow> EventKey \<Rightarrow> bool" where
  "cancelKey t e \<longleftrightarrow> Key e = KeyEscape \<or> Key e = KeyTab \<or> Key e = KeyBacktab
     \<or> (Key e = KeyEnter \<and> \<not> rowsSelectable t \<and> \<not> columnsSelectable t)"

definition pressDown :: EventKey where
  "pressDown = \<lparr>Key = KeyDown, Rune = CHR ''j''\<rparr>"

definition pressPgDn :: EventKey where
  "pressPgDn = \<lparr>Key = KeyPgDn, Rune = CHR ''j''\<rparr>"

definition pressEnter :: EventKey where
  "pressEnter = \<lparr>Key = KeyEnter, Rune = CHR ''j''\<rparr>"

definition pressUp :: EventKey where
  "pressUp = \<lparr>Key = KeyUp, Rune = CHR ''k''\<rparr>"

definition pressHome :: EventKey where
  "pressHome = \<lparr>Key = KeyHome, Rune = CHR ''g''\<rparr>"

text \<open>A cell with a text, and the new table filled with 5 rows of 3 such cells.\<close>

definition textCell :: "string \<Rightarrow> TableCell option" where
  "textCell s = Some (zeroCell\<lparr>Text := s\<rparr>)"

definition grid53 :: Table where
  "grid53 = NewTable\<lparr>cells := replicate 5 (replicate 3 (textCell ''ab'')), lastColumn := 2\<rparr>"

text \<open>The calls that fill it, row by row, and a run with a gap, a nil cell and a rewrite.\<close>

definition gridOps :: "storeOp list" where
  "gridOps = concat (map (\<lambda>r. map (\<lambda>c. Set r c (textCell ''ab'')) [0, 1, 2]) [0, 1, 2, 3, 4])"

definition exampleOps :: "storeOp list" where
  "exampleOps = [Set 0 5 (textCell ''a''), Set 0 0 (textCell ''b''), Set 2 1 None,
     Set 0 5 (textCell ''d'')]"

text \<open>The same table with one fixed column and a requested column offset of 1.\<close>

definition narrow :: Table where
  "narrow = SetFixed (SetOffset grid53 0 1) 0 1"

text \<open>
  Rows selectable and four Down commands from row 0; the same with borders and track-end
  switched off before (Home without a selection); row 7 selected by \<^verbatim>\<open>SetSelected\<close>.
\<close>

definition fourDowns :: Table where
  "fourDowns = fst (handleAll (SetSelectable grid53 True False) (replicate 4 pressDown))"

definition borderedLast :: Table where
  "borderedLast = fst (handleAll
     (SetSelectable (fst (InputHandler (SetBorders grid53 True) pressHome)) True False)
     (replicate 4 pressDown))"

definition beyondLast :: Table where
  "beyondLast = SetSelected (SetSelectable grid53 True False) 7 0"

text \<open>Cells selectable, as a paint of height 3 leaves the table.\<close>

definition paintedCells :: Table where
  "paintedCells = (SetSelectable grid53 True True)\<lparr>visibleRows := 3, rowOffset := 2\<rparr>"

text \<open>
  With borders, column 2 selected, columns selectable and no column offset requested.
\<close>

definition chase :: Table where
  "chase = SetSelected (SetSelectable (SetBorders grid53 True) False True) 0 2"

text \<open>
  With borders and track-end switched off, a requested row offset of \<open>2 ^ 62 + 10\<close>;
  row 2 selected and a requested row offset of \<open>minInt + 3\<close>; row 1 selected and a
  cached count of visible rows of \<open>maxInt\<close>, as a paint of that height leaves it.
\<close>

definition farOffset :: Table where
  "farOffset = SetOffset (fst (InputHandler (SetBorders grid53 True) pressHome))
     4611686018427387914 0"

definition deepOffset :: Table where
  "deepOffset = SetOffset (SetSelected (SetSelectable grid53 True False) 2 0) (minInt + 3) 0"

definition hugePage :: Table where
  "hugePage = setVisibleRows (SetSelected (SetSelectable grid53 True False) 1 0) maxInt"

text \<open>Three fixed rows under the four Down commands; a negative requested row offset.\<close>

definition fixedFull :: Table where
  "fixedFull = SetFixed fourDowns 3 0"

definition negativeOffset :: Table where
  "negativeOffset = SetOffset (SetSelectable grid53 True False) (- 5) 0"


subsection \<open>Notions of the viewport\<close>

text \<open>
  The number of table rows that fit the viewport: \<^verbatim>\<open>height\<close> without borders,
  \<^verbatim>\<open>height / 2\<close> with borders (the value \<^verbatim>\<open>Draw\<close> stores in \<^verbatim>\<open>visibleRows\<close>).
\<close>

definition capacity :: "Table \<Rightarrow> int \<Rightarrow> int" where
  "capacity t height = (if borders t then half height else height)"

text \<open>
  The selected row lies at or past the bottom edge of the viewport for the row offset
  the table holds, in the integers; and the quantities of the row clamp are of moderate
  size, at most \<open>2 ^ 60\<close>, so that none of its sums, differences and doublings wraps.
\<close>

definition pastBottom :: "Table \<Rightarrow> int \<Rightarrow> bool" where
  "pastBottom t height \<longleftrightarrow>
     (if borders t then 2 * (selectedRow t + 1 - rowOffset t) \<ge> height
      else selectedRow t + 1 - rowOffset t \<ge> height)"

definition moderate :: "Table \<Rightarrow> int \<Rightarrow> bool" where
  "moderate t height \<longleftrightarrow>
     - 1152921504606846976 \<le> selectedRow t \<and> selectedRow t \<le> 1152921504606846976
     \<and> - 1152921504606846976 \<le> rowOffset t \<and> rowOffset t \<le> 1152921504606846976
     \<and> - 1152921504606846976 \<le> fixedRows t \<and> fixedRows t \<le> 1152921504606846976
     \<and> - 1152921504606846976 \<le> height \<and> height \<le> 1152921504606846976
     \<and> rowCount t \<le> 1152921504606846976"

text \<open>
  The rows of \<^verbatim>\<open>rows\<close> whose cells the drawing loop reaches, \<open>rowY\<close> being the position
  of the first one: with borders the loop is left at the first row whose text line is not
  below \<open>height\<close> (compare \<open>drawRows\<close>).
\<close>

fun textRows :: "Table \<Rightarrow> int \<Rightarrow> int \<Rightarrow> int list \<Rightarrow> int list" where
  "textRows t height rowY [] = []"
| "textRows t height rowY (row # rows) =
     (if borders t \<and> 2 * rowY + 1 \<ge> height then []
      else row # textRows t height (rowY + 1) rows)"

text \<open>The selection lies on a row and a column of the table.\<close>

definition selectionInRange :: "Table \<Rightarrow> bool" where
  "selectionInRange t \<longleftrightarrow> 0 \<le> selectedRow t \<and> selectedRow t \<le> rowCount t - 1
     \<and> 0 \<le> selectedColumn t \<and> selectedColumn t \<le> lastColumn t"

subsection \<open>Auxiliary notions of the column scan\<close>

text \<open>The scan carried by either exit of the inner loop.\<close>

definition scanOf :: "exit \<Rightarrow> scan" where
  "scanOf x = (case x of BreakColumnLoop s \<Rightarrow> s | Measure s \<Rightarrow> s)"

text \<open>The inner loop reaches "We need to skip a column" and the removal does not panic.\<close>

definition evicts :: "Table \<Rightarrow> int \<Rightarrow> int \<Rightarrow> scan \<Rightarrow> bool" where
  "evicts t width column s \<longleftrightarrow>
     tableWidth s - 1 \<ge> width \<and> \<not> column < fixedColumns t
      \<and> \<not> (\<not> columnsSelectable t \<and> skipped s \<ge> columnOffset t)
      \<and> \<not> (columnsSelectable t \<and> selectedColumn t - skipped s = fixedColumns t)
      \<and> \<not> (columnsSelectable t \<and> skipped s \<ge> columnOffset t
                 \<and> (selectedColumn t < column \<and> lastTableWidth s < width - 1
                      \<or> selectedColumn t < column - 1))
      \<and> \<not> int (length (columns s)) \<le> fixedColumns t
      \<and> \<not> (fixedColumns t < 0 \<or> fixedColumns t \<ge> int (length (widths s)))"

text \<open>
  The invariant of the scan before candidate \<open>column\<close>: the accepted columns are
  increasing indices below the candidate, every accepted column has a width, the log
  holds only columns outside the fixed region, and \<open>skipped\<close> counts the log.
\<close>

definition scanInv :: "Table \<Rightarrow> int \<Rightarrow> scan \<Rightarrow> bool" where
  "scanInv t column s \<longleftrightarrow>
     0 \<le> column \<and> sorted_wrt (<) (columns s)
     \<and> (\<forall>c \<in> set (columns s). 0 \<le> c \<and> c < column)
     \<and> length (widths s) = length (columns s)
     \<and> (\<forall>c \<in> set (evicted s). fixedColumns t \<le> c)
     \<and> skipped s = int (length (evicted s))"

section \<open>Properties\<close>

declare evictLoop.simps [simp del] ColumnLoop.simps [simp del] rowLoop.simps [simp del]

subsection \<open>Go's integers\<close>

lemma wrap64_id: "isInt x \<Longrightarrow> wrap64 x = x"
  by (simp add: isInt_def wrap64_def minInt_def maxInt_def)

lemma wrap64_isInt: "isInt (wrap64 x)"
proof -
  have "0 \<le> (x + 9223372036854775808) mod 18446744073709551616"
    "(x + 9223372036854775808) mod 18446744073709551616 < 18446744073709551616"
    by simp_all
  then show ?thesis
    unfolding isInt_def wrap64_def minInt_def maxInt_def by linarith
qed

lemma wrap64_above: "maxInt < x \<Longrightarrow> x < 18446744073709551616 \<Longrightarrow> wrap64 x < 0"
proof -
  assume a: "maxInt < x" "x < 18446744073709551616"
  define y where "y = x - 9223372036854775808"
  have y: "0 \<le> y" "y < 18446744073709551616"
    using a by (simp_all add: y_def maxInt_def)
  have "x + 9223372036854775808 = y + 18446744073709551616"
    by (simp add: y_def)
  then have "(x + 9223372036854775808) mod 18446744073709551616 = y mod 18446744073709551616"
    by simp
  also have "\<dots> = y" using y by simp
  finally show ?thesis using a by (simp add: wrap64_def y_def maxInt_def)
qed

lemma len64_bounds: "0 \<le> len64 xs" "len64 xs \<le> maxInt"
  by (simp_all add: len64_def maxInt_def)

lemma rowCount_bounds: "0 \<le> rowCount t" "rowCount t \<le> maxInt"
  by (simp_all add: rowCount_def len64_bounds)

lemma inc_plain: "x \<noteq> maxInt \<Longrightarrow> inc x = x + 1"
  by (simp add: inc_def)

lemma dec_plain: "x \<noteq> minInt \<Longrightarrow> dec x = x - 1"
  by (simp add: dec_def)

subsection \<open>Reading cells\<close>

lemma GetCell_returns:
  "0 \<le> row \<Longrightarrow> 0 \<le> column \<Longrightarrow> \<exists>c. GetCell t row column = Inr c"
  by (simp add: GetCell_def)

text \<open>
  Claim C6 (GetCell never fails, negative indices included) does not hold of the code:
  the guard of \<^verbatim>\<open>GetCell\<close> tests only the upper bounds, so a negative row index reaches
  \<^verbatim>\<open>t.cells[row]\<close> and the read panics, here on the new table at \<open>(-1, 0)\<close>. For
  non-negative indices the read always returns (\<open>GetCell_returns\<close>).
\<close>

theorem C6_GetCell_negative_row_panics:
  "GetCell NewTable (- 1) 0 = Inl IndexOutOfRange"
  by (simp add: GetCell_def NewTable_def)


subsection \<open>Input handling\<close>

lemma InputHandler_down: "downKey e \<Longrightarrow> InputHandler t e = (down t, [])"
  by (auto simp: InputHandler_def downKey_def)

lemma InputHandler_pageDown: "pageDownKey e \<Longrightarrow> InputHandler t e = (pageDown t, [])"
  by (auto simp: InputHandler_def pageDownKey_def)

lemma down_selected:
  assumes "rowsSelectable t" "selectedRow t \<le> rowCount t - 1"
  shows "selectedRow (down t) = min (selectedRow t + 1) (rowCount t - 1)"
proof -
  have "selectedRow t \<noteq> maxInt"
    using assms(2) rowCount_bounds(2) [of t] by simp
  then have "inc (selectedRow t) = selectedRow t + 1"
    by (rule inc_plain)
  then show ?thesis
    using assms by (auto simp: down_def rowCount_def Let_def)
qed

lemma down_keeps:
  "rowsSelectable (down t) = rowsSelectable t" "rowCount (down t) = rowCount t"
  by (auto simp: down_def rowCount_def Let_def)

text \<open>
  Claim C9: a cancelling input (Escape, Tab, Backtab, or Enter when neither rows nor
  columns are selectable) leaves the table as it is and makes exactly one callback
  invocation, of the cancellation callback with the key of the event, provided a
  cancellation callback is registered (nothing is invoked when the field is nil); the
  activation callback is not invoked.
\<close>

theorem C9_cancel_invokes_done_once:
  assumes "cancelKey t e"
  shows "InputHandler t e = (t, if doneFunc t then [CallDone (Key e)] else [])
     \<and> (\<forall>r c. CallSelected r c \<notin> set (snd (InputHandler t e)))"
  using assms by (auto simp: InputHandler_def cancelKey_def Let_def)

theorem C9_cancel_invokes_done_once_witness:
  "cancelKey (SetSelectedFunc (SetDoneFunc NewTable True) True) pressEnter
   \<and> InputHandler (SetSelectedFunc (SetDoneFunc NewTable True) True) pressEnter
       = (SetSelectedFunc (SetDoneFunc NewTable True) True, [CallDone KeyEnter])"
  using C9_cancel_invokes_done_once
    [of "SetSelectedFunc (SetDoneFunc NewTable True) True" pressEnter]
  by (simp add: cancelKey_def pressEnter_def SetDoneFunc_def SetSelectedFunc_def NewTable_def)

text \<open>
  Claim C8 as stated (each Down moves the selected row by +1 clamped to
  \<open>[0, rowCount - 1]\<close>, so that the selected row increases monotonically) fails: the
  code clamps only from above, to \<open>rowCount - 1\<close>. On the new, empty table the selected
  row goes from 0 down to -1; on the 5-row table with row 7 selected it goes down to 4.
\<close>

theorem C8_counterexample:
  "rowsSelectable (SetSelectable NewTable True False)
   \<and> selectedRow (SetSelectable NewTable True False) = 0
   \<and> selectedRow (fst (InputHandler (SetSelectable NewTable True False) pressDown)) = - 1
   \<and> rowsSelectable (SetSelected (SetSelectable grid53 True False) 7 0)
   \<and> selectedRow (SetSelected (SetSelectable grid53 True False) 7 0) = 7
   \<and> selectedRow (fst (InputHandler (SetSelected (SetSelectable grid53 True False) 7 0)
        pressDown)) = 4"
  by (simp add: InputHandler_def down_def SetSelectable_def SetSelected_def NewTable_def
      grid53_def pressDown_def inc_def len64_def maxInt_def)

lemma repeated_down_closed:
  assumes "downKey e" and "rowsSelectable t" and "selectedRow t \<le> rowCount t - 1"
  shows "selectedRow (fst (handleAll t (replicate n e)))
           = min (selectedRow t + int n) (rowCount t - 1)"
  using assms(2,3)
proof (induction n arbitrary: t)
  case 0
  then show ?case by simp
next
  case (Suc n)
  have d: "selectedRow (down t) = min (selectedRow t + 1) (rowCount t - 1)"
    using Suc.prems by (rule down_selected)
  have "selectedRow (fst (handleAll (down t) (replicate n e)))
      = min (selectedRow (down t) + int n) (rowCount (down t) - 1)"
    by (rule Suc.IH) (use Suc.prems d in \<open>simp_all add: down_keeps\<close>)
  then show ?case
    using d by (simp add: InputHandler_down [OF assms(1)] split_beta down_keeps)
qed

text \<open>
  Claim C8, amended: with rows selectable and the selected row not beyond the last row,
  \<open>n\<close> Down commands move the selected row from \<open>s\<close> to \<open>min (s + n) (rowCount - 1)\<close>:
  each command adds 1, clamped from above only. Hence the selected row never decreases,
  it is \<open>rowCount - 1\<close> from the command number \<open>rowCount - 1 - s\<close> on, and it stays in
  \<open>[0, rowCount - 1]\<close> when it starts there.
\<close>

theorem C8_repeated_down:
  assumes "downKey e" and "rowsSelectable t" and "selectedRow t \<le> rowCount t - 1"
  shows "selectedRow (fst (handleAll t (replicate n e)))
           = min (selectedRow t + int n) (rowCount t - 1)
     \<and> selectedRow (fst (handleAll t (replicate n e)))
           \<le> selectedRow (fst (handleAll t (replicate (Suc n) e)))
     \<and> (rowCount t - 1 - selectedRow t \<le> int n \<longrightarrow>
           selectedRow (fst (handleAll t (replicate n e))) = rowCount t - 1)
     \<and> (0 \<le> selectedRow t \<longrightarrow> 0 \<le> selectedRow (fst (handleAll t (replicate n e))))"
proof -
  have "selectedRow (fst (handleAll t (replicate k e)))
      = min (selectedRow t + int k) (rowCount t - 1)" for k
    using assms by (rule repeated_down_closed)
  then have "selectedRow (fst (handleAll t (replicate n e)))
        = min (selectedRow t + int n) (rowCount t - 1)"
    "selectedRow (fst (handleAll t (replicate (Suc n) e)))
        = min (selectedRow t + int (Suc n)) (rowCount t - 1)"
    by blast+
  then show ?thesis
    using assms(3) by (simp only: min_def) auto
qed

theorem C8_repeated_down_witness:
  "downKey pressDown \<and> rowsSelectable (SetSelectable grid53 True False)
   \<and> selectedRow (SetSelectable grid53 True False) \<le> rowCount (SetSelectable grid53 True False) - 1
   \<and> selectedRow (fst (handleAll (SetSelectable grid53 True False) (replicate 7 pressDown))) = 4"
  using C8_repeated_down [of pressDown "SetSelectable grid53 True False" 7]
  by (simp add: downKey_def pressDown_def SetSelectable_def grid53_def NewTable_def rowCount_def
      len64_def maxInt_def)

text \<open>
  Claim C10 as stated (on every table without rows and with rows selectable, Down sets
  the selected row to -1) fails at both ends, which \<^verbatim>\<open>SetSelected\<close> reaches: from -5,
  Down gives -4 and the clamp is not reached; from \<open>maxInt\<close> the increment wraps to
  \<open>minInt\<close>, which the clamp does not take either.
\<close>

theorem C10_counterexample:
  "cells (SetSelected (SetSelectable NewTable True False) (- 5) 0) = []
   \<and> rowsSelectable (SetSelected (SetSelectable NewTable True False) (- 5) 0)
   \<and> selectedRow (fst (InputHandler (SetSelected (SetSelectable NewTable True False) (- 5) 0)
        pressDown)) = - 4
   \<and> cells (SetSelected (SetSelectable NewTable True False) maxInt 0) = []
   \<and> rowsSelectable (SetSelected (SetSelectable NewTable True False) maxInt 0)
   \<and> selectedRow (fst (InputHandler (SetSelected (SetSelectable NewTable True False) maxInt 0)
        pressDown)) = minInt"
  by (simp add: InputHandler_def down_def SetSelectable_def SetSelected_def NewTable_def
      pressDown_def inc_def len64_def maxInt_def minInt_def)

text \<open>
  Claim C10, amended: on a table without rows and with rows selectable, a Down command
  sets the selected row to -1 whenever the selected row was at least -1 and below
  \<open>maxInt\<close> before, and a PageDown command does whenever the selected row plus the
  cached count of visible rows was at least -1 and at most \<open>maxInt\<close>; so after a Down or
  PageDown from a selected row \<open>\<ge> 0\<close> whose increment does not overflow the selected
  row is negative.
\<close>

theorem C10_down_on_empty_table:
  assumes "cells t = []" and "rowsSelectable t"
  shows "(downKey e \<and> - 1 \<le> selectedRow t \<and> selectedRow t < maxInt \<longrightarrow>
            selectedRow (fst (InputHandler t e)) = - 1)
       \<and> (pageDownKey e \<and> - 1 \<le> selectedRow t + visibleRows t
            \<and> selectedRow t + visibleRows t \<le> maxInt \<longrightarrow>
            selectedRow (fst (InputHandler t e)) = - 1)"
proof (intro conjI impI)
  assume a: "downKey e \<and> - 1 \<le> selectedRow t \<and> selectedRow t < maxInt"
  then have "inc (selectedRow t) = selectedRow t + 1"
    by (intro inc_plain) simp
  then show "selectedRow (fst (InputHandler t e)) = - 1"
    using a assms by (auto simp: InputHandler_down down_def Let_def len64_def maxInt_def)
next
  assume a: "pageDownKey e \<and> - 1 \<le> selectedRow t + visibleRows t
      \<and> selectedRow t + visibleRows t \<le> maxInt"
  then have "isInt (selectedRow t + visibleRows t)"
    by (simp add: isInt_def minInt_def)
  then have "add64 (selectedRow t) (visibleRows t) = selectedRow t + visibleRows t"
    by (simp add: add64_def wrap64_id)
  then show "selectedRow (fst (InputHandler t e)) = - 1"
    using a assms by (auto simp: InputHandler_pageDown pageDown_def Let_def len64_def maxInt_def)
qed

theorem C10_down_on_empty_table_witness:
  "cells (SetSelectable NewTable True False) = []
   \<and> rowsSelectable (SetSelectable NewTable True False)
   \<and> downKey pressDown \<and> - 1 \<le> selectedRow (SetSelectable NewTable True False)
   \<and> selectedRow (SetSelectable NewTable True False) < maxInt
   \<and> selectedRow (fst (InputHandler (SetSelectable NewTable True False) pressDown)) = - 1
   \<and> pageDownKey pressPgDn
   \<and> selectedRow (fst (InputHandler (SetSelectable NewTable True False) pressPgDn)) = - 1"
  using C10_down_on_empty_table [of "SetSelectable NewTable True False" pressDown]
    C10_down_on_empty_table [of "SetSelectable NewTable True False" pressPgDn]
  by (simp add: SetSelectable_def NewTable_def downKey_def pageDownKey_def pressDown_def
      pressPgDn_def maxInt_def)


subsection \<open>The column scan: invariant\<close>

lemma nth_ge_index:
  "sorted_wrt (<) (xs :: int list) \<Longrightarrow> \<forall>x \<in> set xs. 0 \<le> x \<Longrightarrow> i < length xs \<Longrightarrow> int i \<le> xs ! i"
proof (induction i)
  case 0
  then show ?case by simp
next
  case (Suc i)
  then have "xs ! i < xs ! Suc i"
    by (simp add: sorted_wrt_nth_less)
  moreover have "int i \<le> xs ! i" using Suc by simp
  ultimately show ?case by simp
qed

lemma sorted_wrt_removeAt: "sorted_wrt P xs \<Longrightarrow> sorted_wrt P (removeAt f xs)"
  unfolding removeAt_def
proof (induction xs arbitrary: f)
  case Nil
  then show ?case by simp
next
  case (Cons x xs)
  then show ?case
    by (cases f) (auto dest: in_set_takeD in_set_dropD)
qed

lemma set_removeAt: "set (removeAt f xs) \<subseteq> set xs"
  unfolding removeAt_def by (auto dest: in_set_takeD in_set_dropD)

lemma length_removeAt: "f < length xs \<Longrightarrow> length (removeAt f xs) = length xs - 1"
  unfolding removeAt_def by auto

lemma skipColumn_inv:
  assumes "scanInv t column s" "0 \<le> fixedColumns t" "fixedColumns t < int (length (columns s))"
  shows "scanInv t column (skipColumn t s)"
proof -
  let ?f = "nat (fixedColumns t)"
  have f: "?f < length (columns s)" using assms by simp
  have "int ?f \<le> columns s ! ?f"
    using assms(1) f by (intro nth_ge_index) (auto simp: scanInv_def)
  then have "fixedColumns t \<le> columns s ! ?f" using assms(2) by simp
  then show ?thesis
    using assms(1) f set_removeAt [of ?f "columns s"]
    by (auto simp: scanInv_def skipColumn_def Let_def sorted_wrt_removeAt length_removeAt)
qed


lemma evictLoop_step:
  "evicts t width column s \<Longrightarrow>
     evictLoop t width column s = evictLoop t width column (skipColumn t s)"
  by (subst evictLoop.simps) (auto simp: evicts_def)

lemma evictLoop_done:
  "\<not> evicts t width column s \<Longrightarrow> evictLoop t width column s = Inr x \<Longrightarrow>
     x = BreakColumnLoop s \<or> x = Measure s"
  by (subst (asm) evictLoop.simps) (auto simp: evicts_def split: if_splits)

lemma evictLoop_inv:
  "scanInv t column s \<Longrightarrow> evictLoop t width column s = Inr x \<Longrightarrow> scanInv t column (scanOf x)"
proof (induction t width column s rule: evictLoop.induct)
  case (1 t width column s)
  show ?case
  proof (cases "evicts t width column s")
    case True
    then have "scanInv t column (skipColumn t s)"
      using "1.prems"(1) by (intro skipColumn_inv) (auto simp: evicts_def)
    moreover have "evictLoop t width column (skipColumn t s) = Inr x"
      using True "1.prems"(2) by (simp add: evictLoop_step)
    ultimately show ?thesis
      using True by (intro "1.IH") (auto simp: evicts_def)
  next
    case False
    then have "x = BreakColumnLoop s \<or> x = Measure s"
      using "1.prems"(2) by (rule evictLoop_done)
    then show ?thesis using "1.prems"(1) by (auto simp: scanOf_def)
  qed
qed

lemma storeColumn_inv:
  "scanInv t column s \<Longrightarrow> scanInv t (column + 1) (storeColumn s column w)"
  unfolding scanInv_def storeColumn_def
  by (simp add: sorted_wrt_append) force

lemma ColumnLoop_inv:
  "scanInv t column s \<Longrightarrow> ColumnLoop t width rows column s = Inr s1 \<Longrightarrow>
     \<exists>column1. scanInv t column1 s1"
proof (induction t width rows column s rule: ColumnLoop.induct)
  case (1 t width rows column s)
  show ?case
  proof (cases "column \<le> lastColumn t")
    case False
    then show ?thesis using "1.prems" by (subst (asm) ColumnLoop.simps) auto
  next
    case True
    show ?thesis
    proof (cases "evictLoop t width column s")
      case (Inl e)
      then show ?thesis using True "1.prems"(2) by (subst (asm) ColumnLoop.simps) auto
    next
      case (Inr x)
      then have inv: "scanInv t column (scanOf x)"
        using "1.prems"(1) by (intro evictLoop_inv)
      show ?thesis
      proof (cases x)
        case (BreakColumnLoop s2)
        then show ?thesis
          using True Inr inv "1.prems"(2)
          by (subst (asm) ColumnLoop.simps) (auto simp: scanOf_def)
      next
        case (Measure s2)
        show ?thesis
        proof (cases "columnWidth t column rows (- 1)")
          case (Inl e)
          then show ?thesis
            using True Inr Measure "1.prems"(2) by (subst (asm) ColumnLoop.simps) auto
        next
          case w: (Inr maxWidth)
          show ?thesis
          proof (cases "maxWidth < 0")
            case neg: True
            then show ?thesis
              using True Inr Measure w inv "1.prems"(2)
              by (subst (asm) ColumnLoop.simps) (auto simp: scanOf_def)
          next
            case pos: False
            have "ColumnLoop t width rows (column + 1) (storeColumn s2 column maxWidth) = Inr s1"
              using True Inr Measure w pos "1.prems"(2)
              by (subst (asm) ColumnLoop.simps) auto
            moreover have "scanInv t (column + 1) (storeColumn s2 column maxWidth)"
              using inv Measure by (auto simp: scanOf_def intro: storeColumn_inv)
            ultimately show ?thesis
              using True Inr Measure w pos by (intro "1.IH") auto
          qed
        qed
      qed
    qed
  qed
qed

lemma initialScan_inv: "scanInv t 0 (initialScan t)"
  by (simp add: scanInv_def initialScan_def)


subsection \<open>The cell store\<close>

lemma GetCell_lookup:
  "0 \<le> row \<Longrightarrow> 0 \<le> column \<Longrightarrow>
     GetCell t row column = Inr (lookup (cells t) (nat row) (nat column))"
  by (auto simp: GetCell_def lookup_def)

lemma length_growRows: "0 \<le> row \<Longrightarrow> nat row < length (growRows cs row)"
  by (auto simp: growRows_def)

lemma nth_growRows:
  "i < length (growRows cs row) \<Longrightarrow> growRows cs row ! i = (if i < length cs then cs ! i else [])"
  by (auto simp: growRows_def nth_append)

lemma length_growRows_ge: "length cs \<le> length (growRows cs row)"
  by (auto simp: growRows_def)

lemma length_growRow: "0 \<le> column \<Longrightarrow> nat column < length (growRow r column)"
  by (auto simp: growRow_def Let_def)

lemma length_growRow_ge: "length r \<le> length (growRow r column)"
  by (auto simp: growRow_def Let_def)

lemma nth_growRow:
  "i < length (growRow r column) \<Longrightarrow> i \<noteq> nat column \<Longrightarrow>
     growRow r column ! i = (if i < length r then r ! i else newCell)"
  by (auto simp: growRow_def Let_def nth_append)

lemma SetCell_Inr:
  "0 \<le> row \<Longrightarrow> 0 \<le> column \<Longrightarrow>
     SetCell t row column x = Inr (t\<lparr>cells := (growRows (cells t) row)
         [nat row := (growRow (growRows (cells t) row ! nat row) column)[nat column := x]],
       lastColumn := max (lastColumn t) column\<rparr>)"
  by (simp add: SetCell_def Let_def max_def)

lemma SetCell_Inl: "row < 0 \<or> column < 0 \<Longrightarrow> SetCell t row column x = Inl IndexOutOfRange"
  by (auto simp: SetCell_def Let_def)

lemma lookup_put:
  assumes "0 \<le> row" "0 \<le> column"
  shows "lookup ((growRows cs row)
         [nat row := (growRow (growRows cs row ! nat row) column)[nat column := x]]) r c
       = (if r = nat row \<and> c = nat column then x else lookup cs r c)"
proof -
  let ?g = "growRows cs row"
  let ?w = "growRow (?g ! nat row) column"
  have lr: "nat row < length ?g" using assms(1) by (rule length_growRows)
  have lc: "nat column < length ?w" using assms(2) by (rule length_growRow)
  show ?thesis
  proof (cases "r = nat row")
    case True
    have old: "?g ! nat row = (if nat row < length cs then cs ! nat row else [])"
      using lr by (rule nth_growRows)
    show ?thesis
    proof (cases "c = nat column")
      case c: True
      then show ?thesis using True lr lc by (simp add: lookup_def)
    next
      case c: False
      show ?thesis
      proof (cases "c < length ?w")
        case in_w: True
        then have "?w ! c = (if c < length (?g ! nat row) then ?g ! nat row ! c else newCell)"
          using c by (intro nth_growRow)
        then show ?thesis
          using True c lr in_w old by (auto simp: lookup_def)
      next
        case out_w: False
        then have "\<not> c < length (?g ! nat row)"
          using length_growRow_ge [of "?g ! nat row" column] by simp
        then show ?thesis
          using True c lr out_w old by (auto simp: lookup_def)
      qed
    qed
  next
    case False
    show ?thesis
    proof (cases "r < length ?g")
      case True
      then have "?g ! r = (if r < length cs then cs ! r else [])"
        by (rule nth_growRows)
      then show ?thesis
        using False True by (auto simp: lookup_def)
    next
      case out: False
      then have "\<not> r < length cs"
        using length_growRows_ge [of cs row] by simp
      then show ?thesis using False out by (simp add: lookup_def)
    qed
  qed
qed

lemma applyOps_snoc:
  "applyOps t (xs @ [x]) = (case applyOps t xs of Inl e \<Rightarrow> Inl e | Inr t1 \<Rightarrow> applyOp t1 x)"
  by (induction xs arbitrary: t) (auto split: sum.splits)

lemma written_snoc: "written (xs @ [x]) = noteOp (written xs) x"
  by (simp add: written_def)

lemma lastWritten_Clr: "lastWritten (xs @ [Clr]) row column = newCell"
  by (simp add: lastWritten_def written_snoc)

lemma lastWritten_Set:
  "lastWritten (xs @ [Set r c x]) row column
     = (if r = row \<and> c = column then x else lastWritten xs row column)"
  by (simp add: lastWritten_def written_snoc Let_def)

lemma maxColumn_Clr: "maxColumn (xs @ [Clr]) = - 1"
  by (simp add: maxColumn_def written_snoc)

lemma maxColumn_Set: "maxColumn (xs @ [Set r c x]) = max (maxColumn xs) c"
proof -
  let ?S = "insert (- 1) (set (map (\<lambda>(r, c, x). c) (written xs)))"
  have "maxColumn (xs @ [Set r c x]) = Max (insert c ?S)"
    by (simp add: maxColumn_def written_snoc insert_commute)
  also have "\<dots> = max c (Max ?S)"
    by (rule Max_insert) simp_all
  finally show ?thesis by (simp add: maxColumn_def max.commute)
qed

lemma applyOps_succeeds:
  "(\<exists>t1. applyOps t xs = Inr t1) \<longleftrightarrow> list_all nonNegative xs"
proof (induction xs rule: rev_induct)
  case Nil
  then show ?case by simp
next
  case (snoc x xs)
  show ?case
  proof (cases x)
    case (Set r c y)
    show ?thesis
    proof (cases "0 \<le> r \<and> 0 \<le> c")
      case True
      then show ?thesis
        using snoc Set by (auto simp: applyOps_snoc SetCell_Inr split: sum.splits)
    next
      case False
      then have "SetCell t1 r c y = Inl IndexOutOfRange" for t1
        by (intro SetCell_Inl) auto
      then show ?thesis
        using False Set by (auto simp: applyOps_snoc split: sum.splits)
    qed
  next
    case Clr
    then show ?thesis using snoc by (auto simp: applyOps_snoc split: sum.splits)
  qed
qed

lemma applyOps_content:
  "applyOps NewTable xs = Inr t \<Longrightarrow>
     lastColumn t = maxColumn xs
     \<and> (\<forall>row column. 0 \<le> row \<and> 0 \<le> column \<longrightarrow>
           lookup (cells t) (nat row) (nat column) = lastWritten xs row column)"
proof (induction xs arbitrary: t rule: rev_induct)
  case Nil
  then have "t = NewTable" by simp
  then show ?case
    by (simp add: NewTable_def maxColumn_def written_def lastWritten_def lookup_def)
next
  case (snoc x xs)
  then obtain t0 where t0: "applyOps NewTable xs = Inr t0" and step: "applyOp t0 x = Inr t"
    by (auto simp: applyOps_snoc split: sum.splits)
  note IH = snoc.IH [OF t0]
  show ?case
  proof (cases x)
    case Clr
    then show ?thesis
      using step by (auto simp: Clear_def maxColumn_Clr lastWritten_Clr lookup_def)
  next
    case (Set r c y)
    then have nn: "0 \<le> r" "0 \<le> c"
      using step SetCell_Inl [of r c t0 y] by (auto simp: not_less [symmetric])
    have t: "t = t0\<lparr>cells := (growRows (cells t0) r)
         [nat r := (growRow (growRows (cells t0) r ! nat r) c)[nat c := y]],
       lastColumn := max (lastColumn t0) c\<rparr>"
      using step Set SetCell_Inr [OF nn, of t0 y] by simp
    show ?thesis
      using IH nn by (auto simp: t Set maxColumn_Set lastWritten_Set lookup_put)
  qed
qed


text \<open>The example table is what fifteen \<^verbatim>\<open>SetCell\<close> calls build from the new table.\<close>

lemma grid53_built: "applyOps NewTable gridOps = Inr grid53"
  by (simp add: gridOps_def grid53_def NewTable_def SetCell_def growRows_def growRow_def Let_def
      eval_nat_numeral)

text \<open>
  Claim C5: a run of set (and clear) operations from the new table returns exactly when
  every set has a non-negative row and column, and then a read at any position with
  non-negative row and column returns the cell of the last write at that position since
  the last clear, or a new zero-value cell if there was none.
\<close>

theorem C5_read_last_written:
  "((\<exists>t. applyOps NewTable ops = Inr t) \<longleftrightarrow> list_all nonNegative ops)
   \<and> (\<forall>t. applyOps NewTable ops = Inr t \<and> 0 \<le> row \<and> 0 \<le> column \<longrightarrow>
          GetCell t row column = Inr (lastWritten ops row column))"
  using applyOps_content [of ops]
  by (auto simp: applyOps_succeeds GetCell_lookup)

theorem C5_read_last_written_witness:
  "list_all nonNegative exampleOps
   \<and> (\<exists>t. applyOps NewTable exampleOps = Inr t
         \<and> GetCell t 0 5 = Inr (textCell ''d'') \<and> GetCell t 0 3 = Inr newCell
         \<and> GetCell t 2 1 = Inr None \<and> GetCell t 7 7 = Inr newCell)"
proof -
  have nn: "list_all nonNegative exampleOps"
    by (simp add: exampleOps_def)
  then obtain t where t: "applyOps NewTable exampleOps = Inr t"
    using C5_read_last_written [of exampleOps] by blast
  have "GetCell t 0 5 = Inr (lastWritten exampleOps 0 5)"
    "GetCell t 0 3 = Inr (lastWritten exampleOps 0 3)"
    "GetCell t 2 1 = Inr (lastWritten exampleOps 2 1)"
    "GetCell t 7 7 = Inr (lastWritten exampleOps 7 7)"
    using t C5_read_last_written [of exampleOps] by simp_all
  then show ?thesis
    using nn t by (simp add: lastWritten_def written_def exampleOps_def)
qed

lemma lastColumn_is_maxColumn:
  "applyOps NewTable ops = Inr t \<Longrightarrow> lastColumn t = maxColumn ops"
  by (simp add: applyOps_content)

lemma lastColumn_sentinel: "lastColumn NewTable = - 1" "lastColumn (Clear t) = - 1"
  by (simp_all add: NewTable_def Clear_def)

lemma GetCell_after_Clear: "0 \<le> row \<Longrightarrow> GetCell (Clear t) row column = Inr newCell"
  by (simp add: GetCell_def Clear_def)

text \<open>
  Claim C7: after any run of set and clear operations \<open>lastColumn\<close> is the largest
  column written since the last clear (\<open>lastColumn_is_maxColumn\<close>), it is -1 on the new
  table and after a clear (\<open>lastColumn_sentinel\<close>), and after a clear every read at a
  row index \<open>\<ge> 0\<close> returns a new cell (\<open>GetCell_after_Clear\<close>). The last part of the
  claim, every read after a clear, fails for a negative row index, where the read
  panics: the missing lower bound in the guard of \<^verbatim>\<open>GetCell\<close>, as for claim C6.
\<close>

theorem C7_get_after_clear_negative_row_panics:
  "GetCell (Clear grid53) (- 1) 0 = Inl IndexOutOfRange"
  by (simp add: GetCell_def Clear_def)


subsection \<open>Offsets of a paint\<close>

lemma selectionRowOffset_keeps [simp]:
  "cells (selectionRowOffset t h) = cells t" "borders (selectionRowOffset t h) = borders t"
  "fixedColumns (selectionRowOffset t h) = fixedColumns t"
  by (simp_all add: selectionRowOffset_def Let_def)

lemma fitTrackEnd_keeps [simp]:
  "cells (fitTrackEnd t h) = cells t" "borders (fitTrackEnd t h) = borders t"
  "rowOffset (fitTrackEnd t h) = rowOffset t"
  "fixedColumns (fitTrackEnd t h) = fixedColumns t"
  by (simp_all add: fitTrackEnd_def)

lemma followEnd_keeps [simp]:
  "cells (followEnd t h) = cells t" "borders (followEnd t h) = borders t"
  "fixedColumns (followEnd t h) = fixedColumns t"
  by (simp_all add: followEnd_def)

lemma nonNegRowOffset_keeps [simp]:
  "cells (nonNegRowOffset t) = cells t" "borders (nonNegRowOffset t) = borders t"
  "fixedColumns (nonNegRowOffset t) = fixedColumns t"
  by (simp_all add: nonNegRowOffset_def)

lemma setVisibleRows_keeps [simp]:
  "cells (setVisibleRows t h) = cells t" "borders (setVisibleRows t h) = borders t"
  "fixedColumns (setVisibleRows t h) = fixedColumns t"
  by (simp_all add: setVisibleRows_def)

lemma clampColumnOffset_keeps [simp]:
  "cells (clampColumnOffset t) = cells t" "borders (clampColumnOffset t) = borders t"
  "fixedColumns (clampColumnOffset t) = fixedColumns t"
  "rowOffset (clampColumnOffset t) = rowOffset t"
  by (simp_all add: clampColumnOffset_def Let_def)

lemma clampOffsets_keeps [simp]:
  "cells (clampOffsets t h) = cells t" "borders (clampOffsets t h) = borders t"
  "fixedColumns (clampOffsets t h) = fixedColumns t"
  by (simp_all add: clampOffsets_def clampRowOffset_def)

lemma add64_plain: "isInt (a + b) \<Longrightarrow> add64 a b = a + b"
  by (simp add: add64_def wrap64_id)

lemma sub64_plain: "isInt (a - b) \<Longrightarrow> sub64 a b = a - b"
  by (simp add: sub64_def wrap64_id)

lemma mul64_plain: "isInt (a * b) \<Longrightarrow> mul64 a b = a * b"
  by (simp add: mul64_def wrap64_id)

lemma half_between:
  "(0 \<le> h \<longrightarrow> 0 \<le> half h \<and> half h \<le> h) \<and> (h < 0 \<longrightarrow> h \<le> half h \<and> half h \<le> 0)"
  unfolding half_def by presburger

lemma half_isInt: "isInt h \<Longrightarrow> isInt (half h)"
  by (auto simp: isInt_def half_def minInt_def maxInt_def)

lemma selectionRowOffset_isInt:
  "isInt (rowOffset t) \<Longrightarrow> isInt (rowOffset (selectionRowOffset t h))"
  by (simp add: selectionRowOffset_def Let_def sub64_def wrap64_isInt)

text \<open>
  Following the end: the difference \<^verbatim>\<open>len(t.cells) - height\<close> wraps only upwards, to a
  negative offset, which the final clamp takes to 0.
\<close>

lemma follow_le:
  assumes "isInt c"
  shows "max 0 (sub64 (len64 xs) c) \<le> max 0 (len64 xs - c)"
proof (cases "len64 xs - c \<le> maxInt")
  case True
  then have "isInt (len64 xs - c)"
    using assms len64_bounds [of xs] by (simp add: isInt_def minInt_def maxInt_def)
  then show ?thesis by (simp add: sub64_plain)
next
  case False
  then have "wrap64 (len64 xs - c) < 0"
    using assms len64_bounds [of xs]
    by (intro wrap64_above) (simp_all add: isInt_def minInt_def maxInt_def)
  then show ?thesis by (simp add: sub64_def)
qed

lemma followEnd_tracking:
  assumes "trackEnd t" "isInt h"
  shows "rowOffset (nonNegRowOffset (followEnd t h)) \<le> max 0 (rowCount t - capacity t h)"
proof -
  have "max 0 (sub64 (len64 (cells t)) (capacity t h)) \<le> max 0 (len64 (cells t) - capacity t h)"
    using assms(2) by (intro follow_le) (simp add: capacity_def half_isInt)
  then show ?thesis
    using assms(1)
    by (auto simp: nonNegRowOffset_def followEnd_def rowCount_def capacity_def max_def
        split: if_splits)
qed

text \<open>
  Track-end left off by the fit check: a positive offset is then at most
  \<open>rowCount - capacity\<close>, without borders always and with borders when the doubling
  does not wrap.
\<close>

lemma fit_borderless:
  assumes "\<not> borders t" "isInt (rowOffset t)" "\<not> trackEnd (fitTrackEnd t h)"
  shows "rowOffset t \<le> max 0 (rowCount t - capacity t h)"
proof (cases "0 < rowOffset t")
  case False
  then show ?thesis by simp
next
  case True
  then have "isInt (len64 (cells t) - rowOffset t)"
    using assms(2) len64_bounds [of "cells t"] by (simp add: isInt_def minInt_def maxInt_def)
  then have "sub64 (len64 (cells t)) (rowOffset t) = len64 (cells t) - rowOffset t"
    by (rule sub64_plain)
  then show ?thesis
    using assms(1,3) by (auto simp: fitTrackEnd_def rowCount_def capacity_def split: if_splits)
qed

lemma fit_borders:
  assumes "borders t" "rowOffset t \<le> 4611686018427387904"
    "rowCount t \<le> 1152921504606846976" "\<not> trackEnd (fitTrackEnd t h)"
  shows "rowOffset t \<le> max 0 (rowCount t - capacity t h)"
proof (cases "0 < rowOffset t")
  case False
  then show ?thesis by simp
next
  case True
  let ?d = "len64 (cells t) - rowOffset t"
  have d: "- 4611686018427387904 \<le> ?d" "?d < 1152921504606846976"
    using True assms(2,3) len64_bounds(1) [of "cells t"] by (simp_all add: rowCount_def)
  then have "sub64 (len64 (cells t)) (rowOffset t) = ?d"
    by (intro sub64_plain) (simp add: isInt_def minInt_def maxInt_def)
  moreover have "mul64 2 ?d = 2 * ?d"
    using d by (intro mul64_plain) (simp add: isInt_def minInt_def maxInt_def)
  ultimately have "h \<le> 2 * ?d"
    using assms(1,4) by (auto simp: fitTrackEnd_def split: if_splits)
  then have "half h \<le> ?d"
    by (auto simp: half_def)
  then show ?thesis
    using assms(1) by (simp add: rowCount_def capacity_def)
qed

lemma selectionRowOffset_moderate:
  assumes "moderate t h"
  shows "rowOffset (selectionRowOffset t h) \<le> 4611686018427387904"
proof -
  have m: "- 1152921504606846976 \<le> selectedRow t" "selectedRow t \<le> 1152921504606846976"
    "- 1152921504606846976 \<le> rowOffset t" "rowOffset t \<le> 1152921504606846976"
    "- 1152921504606846976 \<le> fixedRows t" "fixedRows t \<le> 1152921504606846976"
    "- 1152921504606846976 \<le> h" "h \<le> 1152921504606846976"
    using assms by (simp_all add: moderate_def)
  have hh: "- 1152921504606846976 \<le> half h" "half h \<le> 1152921504606846976"
    using m half_between [of h] by auto
  have p: "add64 (selectedRow t) 1 = selectedRow t + 1"
    "sub64 (selectedRow t) (fixedRows t) = selectedRow t - fixedRows t"
    "sub64 (selectedRow t + 1) h = selectedRow t + 1 - h"
    "sub64 (selectedRow t + 1) (half h) = selectedRow t + 1 - half h"
    using m hh
    by (simp_all add: add64_plain sub64_plain isInt_def minInt_def maxInt_def)
  show ?thesis
    using m hh by (simp add: selectionRowOffset_def Let_def p)
qed

lemma clampRowOffset_nonneg: "0 \<le> rowOffset (clampRowOffset t h)"
  by (simp add: clampRowOffset_def nonNegRowOffset_def)

lemma clampRowOffset_upper:
  assumes "isInt (rowOffset t)" "isInt h" "borders t \<longrightarrow> moderate t h"
  shows "rowOffset (clampRowOffset t h) \<le> max 0 (rowCount t - capacity t h)"
proof -
  let ?u = "selectionRowOffset t h"
  let ?v = "fitTrackEnd ?u h"
  have c: "rowCount ?v = rowCount t" "capacity ?v h = capacity t h"
    "rowCount ?u = rowCount t" "capacity ?u h = capacity t h"
    by (simp_all add: rowCount_def capacity_def)
  show ?thesis
  proof (cases "trackEnd ?v")
    case True
    then show ?thesis
      using followEnd_tracking [of ?v h] assms(2) by (simp add: clampRowOffset_def c)
  next
    case False
    have "rowOffset ?u \<le> max 0 (rowCount ?u - capacity ?u h)"
    proof (cases "borders t")
      case nb: False
      show ?thesis
        using nb assms(1) False by (intro fit_borderless selectionRowOffset_isInt) simp_all
    next
      case b: True
      then have "moderate t h" using assms(3) by simp
      then have "rowOffset ?u \<le> 4611686018427387904" "rowCount ?u \<le> 1152921504606846976"
        by (simp_all add: selectionRowOffset_moderate c) (simp add: moderate_def)
      then show ?thesis
        using b False by (intro fit_borders) simp_all
    qed
    then show ?thesis
      using False by (simp add: clampRowOffset_def nonNegRowOffset_def followEnd_def c)
  qed
qed

lemma clampOffsets_rowOffset:
  "rowOffset (clampOffsets t h) = rowOffset (clampRowOffset (setVisibleRows t h) h)"
  by (simp add: clampOffsets_def)

lemma Draw_Inr:
  assumes "Draw t width height = Inr t1"
  shows "\<exists>s. drawScan t width height = Inr s \<and> t1 = (clampOffsets t height)\<lparr>columnOffset := skipped s\<rparr>"
  using assms by (auto simp: Draw_def Let_def split: sum.splits)

lemma drawScan_inv:
  "drawScan t width height = Inr s \<Longrightarrow> \<exists>column. scanInv t column s"
proof -
  assume a: "drawScan t width height = Inr s"
  let ?t = "clampOffsets t height"
  have "\<exists>column. scanInv ?t column s"
    using a initialScan_inv [of ?t] ColumnLoop_inv unfolding drawScan_def Let_def by blast
  then show ?thesis by (simp add: scanInv_def)
qed

lemma ColumnLoop_fixed_stop:
  "column \<le> lastColumn t \<Longrightarrow> column < fixedColumns t \<Longrightarrow> tableWidth s - 1 \<ge> width \<Longrightarrow>
     ColumnLoop t width rows column s = Inr s"
  by (subst ColumnLoop.simps, subst evictLoop.simps) simp


lemma narrow_scan:
  "drawScan narrow 5 3 = Inr \<lparr>columns = [0, 2], widths = [2, 2], tableWidth = 6,
     lastTableWidth = 3, skipped = 1, evicted = [1]\<rparr>"
  by code_simp

lemma chase_draw:
  "columnOffset chase = 0 \<and> borders chase \<and> isInt (rowOffset chase) \<and> isInt 7
   \<and> moderate chase 7
   \<and> Draw chase 6 7 = Inr (chase\<lparr>visibleRows := 3, rowOffset := 2, columnOffset := 1\<rparr>)
   \<and> drawScan chase 6 7 = Inr \<lparr>columns = [1, 2], widths = [2, 2], tableWidth = 7,
        lastTableWidth = 4, skipped = 1, evicted = [0]\<rparr>
   \<and> rowCount chase = 5 \<and> capacity chase 7 = 3"
  by code_simp

text \<open>
  Claim C1 as stated (after every paint the row offset is at most
  \<open>max 0 (rowCount - capacity)\<close>) fails for a table with borders and a very large
  requested row offset: with 5 rows, height 5, track-end off and the offset
  \<open>2 ^ 62 + 10\<close> set by \<^verbatim>\<open>SetOffset\<close>, the doubling in the fit check wraps around to a
  positive number, track-end stays off and the offset stays where it is, far above 3.
\<close>

theorem C1_counterexample:
  "borders farOffset \<and> \<not> trackEnd farOffset \<and> rowOffset farOffset = 4611686018427387914
   \<and> isInt (rowOffset farOffset) \<and> rowCount farOffset = 5 \<and> capacity farOffset 5 = 2
   \<and> Draw farOffset 80 5 = Inr (farOffset\<lparr>visibleRows := 2\<rparr>)
   \<and> max 0 (rowCount farOffset - capacity farOffset 5)
        < rowOffset (farOffset\<lparr>visibleRows := 2\<rparr>)"
  by code_simp

text \<open>
  Claim C1, amended: after a paint that returns, the row offset is at least 0 and the
  column offset is the counter \<open>skipped\<close> of that paint's column scan, which is the
  number of columns the scan evicted, whatever column offset the table held before. The
  row offset is at most \<open>max 0 (rowCount - capacity)\<close>, the capacity being the height
  without borders and \<open>height / 2\<close> with borders, for every table without borders, and
  for a table with borders when the number of rows and the magnitudes of selected row,
  row offset, count of fixed rows and height are at most \<open>2 ^ 60\<close> (the row offset and
  the height being values of Go's \<^verbatim>\<open>int\<close>).
\<close>

theorem C1_offsets_after_paint:
  assumes "Draw t width height = Inr t1"
  shows "0 \<le> rowOffset t1
     \<and> (\<exists>s. drawScan t width height = Inr s \<and> columnOffset t1 = skipped s
            \<and> skipped s = int (length (evicted s)))
     \<and> (isInt (rowOffset t) \<and> isInt height \<and> (borders t \<longrightarrow> moderate t height) \<longrightarrow>
           rowOffset t1 \<le> max 0 (rowCount t - capacity t height))"
proof -
  obtain s :: scan where s: "drawScan t width height = Inr s"
    and t1: "t1 = (clampOffsets t height)\<lparr>columnOffset := skipped s\<rparr>"
    using Draw_Inr [OF assms] by blast
  let ?u = "setVisibleRows t height"
  have u: "rowCount ?u = rowCount t" "capacity ?u height = capacity t height"
    "rowOffset ?u = rowOffset t" "borders ?u = borders t" "moderate ?u height = moderate t height"
    by (simp_all add: setVisibleRows_def rowCount_def capacity_def moderate_def)
  have "0 \<le> rowOffset t1"
    by (simp add: t1 clampOffsets_rowOffset clampRowOffset_nonneg)
  moreover have "skipped s = int (length (evicted s))"
    using drawScan_inv [OF s] by (auto simp: scanInv_def)
  moreover have "rowOffset t1 \<le> max 0 (rowCount t - capacity t height)"
    if "isInt (rowOffset t) \<and> isInt height \<and> (borders t \<longrightarrow> moderate t height)"
    using clampRowOffset_upper [of ?u height] that by (simp add: t1 clampOffsets_rowOffset u)
  ultimately show ?thesis using s t1 by simp
qed

theorem C1_offsets_after_paint_witness:
  "columnOffset chase = 0 \<and> borders chase \<and> isInt (rowOffset chase) \<and> isInt 7
   \<and> moderate chase 7
   \<and> Draw chase 6 7 = Inr (chase\<lparr>visibleRows := 3, rowOffset := 2, columnOffset := 1\<rparr>)
   \<and> 0 \<le> rowOffset (chase\<lparr>visibleRows := 3, rowOffset := 2, columnOffset := 1\<rparr>)
   \<and> rowOffset (chase\<lparr>visibleRows := 3, rowOffset := 2, columnOffset := 1\<rparr>)
        \<le> max 0 (rowCount chase - capacity chase 7)
   \<and> (\<exists>s. drawScan chase 6 7 = Inr s
         \<and> columnOffset (chase\<lparr>visibleRows := 3, rowOffset := 2, columnOffset := 1\<rparr>)
              = skipped s
         \<and> skipped s = int (length (evicted s)) \<and> evicted s = [0])"
proof -
  have d: "Draw chase 6 7
      = Inr (chase\<lparr>visibleRows := 3, rowOffset := 2, columnOffset := 1\<rparr>)"
    using chase_draw by simp
  have s: "drawScan chase 6 7 = Inr \<lparr>columns = [1, 2], widths = [2, 2], tableWidth = 7,
        lastTableWidth = 4, skipped = 1, evicted = [0]\<rparr>"
    using chase_draw by simp
  show ?thesis
    using C1_offsets_after_paint [OF d] d s chase_draw by auto
qed

text \<open>
  Claim C3: every column that the scan of a paint evicts has an index at or above the
  count of fixed columns; and at a candidate column inside the fixed region the inner
  loop removes nothing: when the width is used up it leaves by \<^verbatim>\<open>break ColumnLoop\<close> at
  once, so that the scan ends with its variables as they are (nothing evicted, nothing
  appended), and otherwise it goes on to measure the candidate.
\<close>

theorem C3_eviction_spares_fixed_columns:
  "(drawScan t width height = Inr s \<longrightarrow> (\<forall>c \<in> set (evicted s). fixedColumns t \<le> c))
   \<and> (column < fixedColumns t \<longrightarrow>
        evictLoop t width column s0
          = Inr (if tableWidth s0 - 1 \<ge> width then BreakColumnLoop s0 else Measure s0))
   \<and> (column < fixedColumns t \<and> column \<le> lastColumn t \<and> tableWidth s0 - 1 \<ge> width \<longrightarrow>
        ColumnLoop t width rows column s0 = Inr s0)"
proof -
  have "\<forall>c \<in> set (evicted s). fixedColumns t \<le> c" if "drawScan t width height = Inr s"
    using drawScan_inv [OF that] by (auto simp: scanInv_def)
  moreover have "evictLoop t width column s0
      = Inr (if tableWidth s0 - 1 \<ge> width then BreakColumnLoop s0 else Measure s0)"
    if "column < fixedColumns t"
    using that by (subst evictLoop.simps) simp
  ultimately show ?thesis
    by (auto simp: ColumnLoop_fixed_stop)
qed

lemma narrow_fixed: "(0::int) < fixedColumns narrow \<and> 0 \<le> lastColumn narrow"
  by (simp add: narrow_def SetFixed_def SetOffset_def grid53_def)

lemma wide_scan: "tableWidth ((initialScan narrow)\<lparr>tableWidth := 6\<rparr>) - 1 \<ge> 5"
  by simp

theorem C3_eviction_spares_fixed_columns_witness:
  "drawScan narrow 5 3 = Inr \<lparr>columns = [0, 2], widths = [2, 2], tableWidth = 6,
     lastTableWidth = 3, skipped = 1, evicted = [1]\<rparr>
   \<and> fixedColumns narrow \<le> 1
   \<and> 0 < fixedColumns narrow \<and> 0 \<le> lastColumn narrow
   \<and> tableWidth ((initialScan narrow)\<lparr>tableWidth := 6\<rparr>) - 1 \<ge> 5
   \<and> evictLoop narrow 5 0 ((initialScan narrow)\<lparr>tableWidth := 6\<rparr>)
        = Inr (BreakColumnLoop ((initialScan narrow)\<lparr>tableWidth := 6\<rparr>))
   \<and> ColumnLoop narrow 5 [2, 3, 4] 0 ((initialScan narrow)\<lparr>tableWidth := 6\<rparr>)
        = Inr ((initialScan narrow)\<lparr>tableWidth := 6\<rparr>)"
  using C3_eviction_spares_fixed_columns [of narrow 5 3
      "\<lparr>columns = [0, 2], widths = [2, 2], tableWidth = 6,
        lastTableWidth = 3, skipped = 1, evicted = [1]\<rparr>" 0
      "(initialScan narrow)\<lparr>tableWidth := 6\<rparr>" "[2, 3, 4]"]
    narrow_scan narrow_fixed wide_scan
  by simp


subsection \<open>Where the invariants are enforced\<close>

lemma InputHandler_cases:
  "fst (InputHandler t e)
     \<in> {t, home t, end' t, down t, up t, left t, right t, pageDown t, pageUp t}"
  by (cases "Key e") (simp_all add: InputHandler_def)

lemma moves_selectionInRange:
  assumes "selectionInRange t" "0 \<le> visibleRows t"
    "selectedRow t + visibleRows t \<le> maxInt" "lastColumn t < maxInt"
  shows "selectionInRange (home t)" "selectionInRange (end' t)" "selectionInRange (down t)"
    "selectionInRange (up t)" "selectionInRange (left t)" "selectionInRange (right t)"
    "selectionInRange (pageDown t)" "selectionInRange (pageUp t)"
proof -
  have r: "0 \<le> selectedRow t" "selectedRow t \<le> len64 (cells t) - 1"
    "0 \<le> selectedColumn t" "selectedColumn t \<le> lastColumn t"
    using assms(1) by (simp_all add: selectionInRange_def rowCount_def)
  have b: "len64 (cells t) \<le> 9223372036854775807"
    using len64_bounds(2) [of "cells t"] by (simp add: maxInt_def)
  have v: "selectedRow t + visibleRows t \<le> 9223372036854775807"
    "lastColumn t < 9223372036854775807"
    using assms(3,4) by (simp_all add: maxInt_def)
  have p: "inc (selectedRow t) = selectedRow t + 1" "dec (selectedRow t) = selectedRow t - 1"
    "inc (selectedColumn t) = selectedColumn t + 1"
    "dec (selectedColumn t) = selectedColumn t - 1"
    "add64 (selectedRow t) (visibleRows t) = selectedRow t + visibleRows t"
    "sub64 (selectedRow t) (visibleRows t) = selectedRow t - visibleRows t"
    using r b v assms(2)
    by (simp_all add: inc_plain dec_plain add64_plain sub64_plain isInt_def minInt_def
        maxInt_def)
  show "selectionInRange (home t)" "selectionInRange (end' t)" "selectionInRange (down t)"
    "selectionInRange (up t)" "selectionInRange (left t)" "selectionInRange (right t)"
    "selectionInRange (pageDown t)" "selectionInRange (pageUp t)"
    using r assms(2)
    by (auto simp: selectionInRange_def rowCount_def home_def end'_def down_def
        up_def left_def right_def pageDown_def pageUp_def Let_def p)
qed

lemma clampOffsets_selectedColumn: "0 \<le> selectedColumn (clampOffsets t h)"
  by (simp add: clampOffsets_def clampColumnOffset_def Let_def)

lemma hugePage_painted:
  "Draw (SetSelected (SetSelectable grid53 True False) 1 0) 80 maxInt = Inr hugePage
   \<and> selectionInRange hugePage \<and> visibleRows hugePage = maxInt
   \<and> selectedRow (fst (InputHandler hugePage pressPgDn)) = minInt"
  by code_simp

text \<open>
  Claim C2 as stated (after every setter and every input command the offsets are
  \<open>\<ge> 0\<close> and the selection is in range, before any paint) fails: Up without a row
  selection takes the row offset of the new table to -1, \<^verbatim>\<open>SetOffset\<close> and
  \<^verbatim>\<open>SetSelected\<close> store their arguments as they are. The offsets are clamped by
  \<^verbatim>\<open>Draw\<close> ("Clamp row offsets", "Clamp column offset"). And after a paint of height
  \<open>maxInt\<close>, PageDown from row 1 of 5 adds the cached count, wraps around to
  \<open>minInt\<close> and is not clamped.
\<close>

theorem C2_counterexample:
  "rowOffset (fst (InputHandler NewTable pressUp)) = - 1
   \<and> rowOffset (SetOffset NewTable (- 3) (- 2)) = - 3
   \<and> columnOffset (SetOffset NewTable (- 3) (- 2)) = - 2
   \<and> rowsSelectable (SetSelected (SetSelectable grid53 True True) 7 9)
   \<and> rowCount (SetSelected (SetSelectable grid53 True True) 7 9) = 5
   \<and> selectedRow (SetSelected (SetSelectable grid53 True True) 7 9) = 7
   \<and> Draw (SetSelected (SetSelectable grid53 True False) 1 0) 80 maxInt = Inr hugePage
   \<and> selectionInRange hugePage \<and> visibleRows hugePage = maxInt
   \<and> selectedRow (fst (InputHandler hugePage pressPgDn)) = minInt"
  using hugePage_painted
  by (simp add: InputHandler_def up_def pressUp_def NewTable_def SetOffset_def SetSelected_def
      SetSelectable_def grid53_def rowCount_def dec_def len64_def minInt_def maxInt_def)

text \<open>
  Claim C2, amended: every input command keeps the selected row in
  \<open>[0, rowCount - 1]\<close> and the selected column in \<open>[0, lastColumn]\<close> when they are
  there before the command, the cached count of visible rows is not negative, its sum
  with the selected row does not exceed \<open>maxInt\<close>, and the last column is below
  \<open>maxInt\<close>; the offsets (and a negative selected column) are brought back to \<open>\<ge> 0\<close>
  by the next paint, not at the mutation site.
\<close>

theorem C2_invariants_where_enforced:
  "(selectionInRange t \<and> 0 \<le> visibleRows t \<and> selectedRow t + visibleRows t \<le> maxInt
      \<and> lastColumn t < maxInt \<longrightarrow> selectionInRange (fst (InputHandler t e)))
   \<and> (Draw t width height = Inr t1 \<longrightarrow>
         0 \<le> rowOffset t1 \<and> 0 \<le> columnOffset t1 \<and> 0 \<le> selectedColumn t1)"
proof -
  have "selectionInRange (fst (InputHandler t e))"
    if "selectionInRange t" "0 \<le> visibleRows t" "selectedRow t + visibleRows t \<le> maxInt"
      "lastColumn t < maxInt"
    using InputHandler_cases [of t e] moves_selectionInRange [OF that] that(1) by auto
  moreover have "0 \<le> rowOffset t1 \<and> 0 \<le> columnOffset t1 \<and> 0 \<le> selectedColumn t1"
    if d: "Draw t width height = Inr t1"
  proof -
    obtain s :: scan where s: "drawScan t width height = Inr s"
      and t1: "t1 = (clampOffsets t height)\<lparr>columnOffset := skipped s\<rparr>"
      using Draw_Inr [OF d] by blast
    have "0 \<le> skipped s"
      using drawScan_inv [OF s] by (auto simp: scanInv_def)
    moreover have "0 \<le> rowOffset (clampOffsets t height)"
      by (simp add: clampOffsets_rowOffset clampRowOffset_nonneg)
    ultimately show ?thesis
      by (simp add: t1 clampOffsets_selectedColumn)
  qed
  ultimately show ?thesis by blast
qed

lemma paintedCells_facts:
  "Draw (SetSelectable grid53 True True) 80 3 = Inr paintedCells
   \<and> selectionInRange paintedCells \<and> 0 \<le> visibleRows paintedCells
   \<and> selectedRow paintedCells + visibleRows paintedCells \<le> maxInt
   \<and> lastColumn paintedCells < maxInt
   \<and> selectedRow paintedCells = 0
   \<and> selectedRow (fst (InputHandler paintedCells pressPgDn)) = 3
   \<and> selectedRow (fst (InputHandler (fst (InputHandler paintedCells pressPgDn)) pressPgDn)) = 4"
  by code_simp

theorem C2_invariants_where_enforced_witness:
  "selectionInRange paintedCells \<and> 0 \<le> visibleRows paintedCells
   \<and> selectedRow paintedCells + visibleRows paintedCells \<le> maxInt
   \<and> lastColumn paintedCells < maxInt
   \<and> selectedRow paintedCells = 0
   \<and> selectedRow (fst (InputHandler paintedCells pressPgDn)) = 3
   \<and> selectionInRange (fst (InputHandler paintedCells pressPgDn))
   \<and> Draw (SetSelectable grid53 True True) 80 3 = Inr paintedCells
   \<and> 0 \<le> rowOffset paintedCells \<and> 0 \<le> columnOffset paintedCells"
  using C2_invariants_where_enforced [of paintedCells pressPgDn 80 3 paintedCells]
    C2_invariants_where_enforced
      [of "SetSelectable grid53 True True" pressPgDn 80 3 paintedCells]
    paintedCells_facts
  by simp



subsection \<open>The selected row at the bottom edge\<close>

lemma moderate_bounds:
  assumes "moderate t h"
  shows "- 1152921504606846976 \<le> selectedRow t" "selectedRow t \<le> 1152921504606846976"
    "- 1152921504606846976 \<le> rowOffset t" "rowOffset t \<le> 1152921504606846976"
    "- 1152921504606846976 \<le> fixedRows t" "fixedRows t \<le> 1152921504606846976"
    "- 1152921504606846976 \<le> h" "h \<le> 1152921504606846976"
    "- 1152921504606846976 \<le> half h" "half h \<le> 1152921504606846976"
    "0 \<le> len64 (cells t)" "len64 (cells t) \<le> 1152921504606846976"
  using assms half_between [of h] len64_bounds(1) [of "cells t"]
  by (auto simp: moderate_def rowCount_def)

lemma selectionRowOffset_pastBottom:
  assumes "rowsSelectable t" "pastBottom t h" "moderate t h"
  shows "selectionRowOffset t h
    = t\<lparr>rowOffset := selectedRow t + 1 - capacity t h, trackEnd := False\<rparr>"
proof -
  note m = moderate_bounds [OF assms(3)]
  have q: "add64 (fixedRows t) (rowOffset t) = fixedRows t + rowOffset t"
    "sub64 (selectedRow t) (fixedRows t) = selectedRow t - fixedRows t"
    "add64 (selectedRow t) 1 = selectedRow t + 1"
    "sub64 (selectedRow t + 1) (rowOffset t) = selectedRow t + 1 - rowOffset t"
    "sub64 (selectedRow t + 1) (selectedRow t - fixedRows t) = 1 + fixedRows t"
    "mul64 2 (selectedRow t + 1 - rowOffset t) = 2 * (selectedRow t + 1 - rowOffset t)"
    "mul64 2 (1 + fixedRows t) = 2 * (1 + fixedRows t)"
    "sub64 (selectedRow t + 1) h = selectedRow t + 1 - h"
    "sub64 (selectedRow t + 1) (half h) = selectedRow t + 1 - half h"
    using m
    by (simp_all add: add64_plain sub64_plain mul64_plain isInt_def minInt_def maxInt_def)
  have p: "borders t \<Longrightarrow> h \<le> 2 * (selectedRow t + 1 - rowOffset t)"
    "\<not> borders t \<Longrightarrow> h \<le> selectedRow t + 1 - rowOffset t"
    using assms(2) by (simp_all add: pastBottom_def)
  consider (pull) "selectedRow t \<ge> fixedRows t" "selectedRow t < fixedRows t + rowOffset t"
    | (low) "\<not> selectedRow t \<ge> fixedRows t"
    | (high) "\<not> selectedRow t < fixedRows t + rowOffset t"
    by blast
  then show ?thesis
  proof cases
    case pull
    have "borders t \<Longrightarrow> h \<le> 2 * (1 + fixedRows t)" "\<not> borders t \<Longrightarrow> h \<le> 1 + fixedRows t"
      using p pull by simp_all
    then show ?thesis
      using assms(1) pull
      by (cases "borders t") (simp_all add: selectionRowOffset_def Let_def capacity_def q)
  next
    case low
    then show ?thesis
      using assms(1) p
      by (cases "borders t") (simp_all add: selectionRowOffset_def Let_def capacity_def q)
  next
    case high
    then show ?thesis
      using assms(1) p
      by (cases "borders t") (simp_all add: selectionRowOffset_def Let_def capacity_def q)
  qed
qed

lemma half_twice:
  "2 * half h = (if even h then h else if 0 < h then h - 1 else h + 1)"
  unfolding half_def by presburger

lemma fit_after_push:
  assumes "selectedRow t < rowCount t" "moderate t h"
  shows "trackEnd (fitTrackEnd (t\<lparr>rowOffset := selectedRow t + 1 - capacity t h, trackEnd := False\<rparr>) h)
     \<longleftrightarrow> borders t \<and> 0 < h \<and> odd h \<and> selectedRow t = rowCount t - 1"
proof -
  note m = moderate_bounds [OF assms(2)]
  have q: "sub64 (len64 (cells t)) (selectedRow t + 1 - h)
        = len64 (cells t) - (selectedRow t + 1 - h)"
    "sub64 (len64 (cells t)) (selectedRow t + 1 - half h)
        = len64 (cells t) - (selectedRow t + 1 - half h)"
    "mul64 2 (len64 (cells t) - (selectedRow t + 1 - half h))
        = 2 * (len64 (cells t) - (selectedRow t + 1 - half h))"
    using m
    by (simp_all add: sub64_plain mul64_plain isInt_def minInt_def maxInt_def)
  show ?thesis
  proof (cases "borders t")
    case False
    then show ?thesis
      using assms(1) by (simp add: fitTrackEnd_def capacity_def rowCount_def q)
  next
    case True
    have "(2 * (rowCount t - (selectedRow t + 1 - half h)) < h)
        = (2 * (rowCount t - selectedRow t - 1) + 2 * half h < h)"
      by (simp add: algebra_simps)
    also have "\<dots> = (0 < h \<and> odd h \<and> selectedRow t = rowCount t - 1)"
      using assms(1) unfolding half_twice by auto
    finally show ?thesis
      using True by (simp add: fitTrackEnd_def capacity_def rowCount_def q)
  qed
qed

lemma clampRowOffset_pastBottom:
  assumes "rowsSelectable t" "selectedRow t < rowCount t" "pastBottom t h" "moderate t h"
  shows "rowOffset (clampRowOffset t h) = max 0 (selectedRow t + 1 - capacity t h)"
    and "trackEnd (clampRowOffset t h)
       \<longleftrightarrow> borders t \<and> 0 < h \<and> odd h \<and> selectedRow t = rowCount t - 1"
proof -
  let ?u = "t\<lparr>rowOffset := selectedRow t + 1 - capacity t h, trackEnd := False\<rparr>"
  let ?v = "fitTrackEnd ?u h"
  note m = moderate_bounds [OF assms(4)]
  have u: "selectionRowOffset t h = ?u"
    using assms(1,3,4) by (rule selectionRowOffset_pastBottom)
  have tv: "trackEnd ?v \<longleftrightarrow> borders t \<and> 0 < h \<and> odd h \<and> selectedRow t = rowCount t - 1"
    using assms(2,4) by (rule fit_after_push)
  have q: "sub64 (len64 (cells t)) h = rowCount t - h"
    "sub64 (len64 (cells t)) (half h) = rowCount t - half h"
    using m by (simp_all add: sub64_plain isInt_def minInt_def maxInt_def rowCount_def)
  have fe: "rowOffset (followEnd ?v h)
      = (if trackEnd ?v then rowCount t - capacity t h else selectedRow t + 1 - capacity t h)"
    by (cases "borders t") (simp_all add: followEnd_def capacity_def q)
  have ro: "rowOffset (followEnd ?v h) = selectedRow t + 1 - capacity t h"
  proof (cases "trackEnd ?v")
    case True
    then have "selectedRow t = rowCount t - 1" using tv by simp
    then have "rowCount t - capacity t h = selectedRow t + 1 - capacity t h" by simp
    then show ?thesis
      using True by (simp only: fe if_True)
  next
    case False
    then show ?thesis by (simp only: fe if_False)
  qed
  have te: "trackEnd (followEnd ?v h) = trackEnd ?v"
    by (simp add: followEnd_def)
  show "rowOffset (clampRowOffset t h) = max 0 (selectedRow t + 1 - capacity t h)"
    using ro by (simp add: clampRowOffset_def u nonNegRowOffset_def max_def)
  show "trackEnd (clampRowOffset t h)
       \<longleftrightarrow> borders t \<and> 0 < h \<and> odd h \<and> selectedRow t = rowCount t - 1"
    using tv te by (simp add: clampRowOffset_def u nonNegRowOffset_def)
qed

lemma rowLoop_stop: "bound \<le> row \<or> h \<le> th \<Longrightarrow> rowLoop h step bound row (rows, th) = (rows, th)"
  by (subst rowLoop.simps) (auto simp: indexRow_def)

lemma rowLoop_next:
  "row < bound \<Longrightarrow> th < h \<Longrightarrow>
     rowLoop h step bound row (rows, th)
       = rowLoop h step bound (row + 1) (rows @ [row], add64 th step)"
  by (subst rowLoop.simps) (simp add: indexRow_def)

lemma rowLoop_run:
  assumes "\<forall>i<n. th + step * int i < h" "row + int n \<le> bound"
    "row + int n = bound \<or> h \<le> th + step * int n"
    and "0 \<le> th" "0 \<le> step" "th + step * int n \<le> maxInt"
  shows "rowLoop h step bound row (rows, th)
           = (rows @ [row .. row + int n - 1], th + step * int n)"
  using assms
proof (induction n arbitrary: row rows th)
  case 0
  then have "bound \<le> row \<or> h \<le> th" by auto
  then show ?case by (simp add: rowLoop_stop)
next
  case (Suc n)
  have "th + step * int 0 < h" using Suc.prems(1) by blast
  then have th: "th < h" by simp
  have row: "row < bound" using Suc.prems(2) by simp
  have "0 \<le> step * int n" using Suc.prems(5) by simp
  then have "th + step \<le> th + step * int (Suc n)" by (simp add: algebra_simps)
  then have "isInt (th + step)"
    using Suc.prems(4-6) by (simp add: isInt_def minInt_def)
  then have a: "add64 th step = th + step" by (rule add64_plain)
  have "\<forall>i<n. (th + step) + step * int i < h"
  proof (intro allI impI)
    fix i assume "i < n"
    then have "Suc i < Suc n" by simp
    then have "th + step * int (Suc i) < h" using Suc.prems(1) by blast
    then show "(th + step) + step * int i < h" by (simp add: algebra_simps)
  qed
  moreover have "(row + 1) + int n \<le> bound" using Suc.prems(2) by simp
  moreover have "(row + 1) + int n = bound \<or> h \<le> (th + step) + step * int n"
    using Suc.prems(3) by (simp add: algebra_simps)
  moreover have "0 \<le> th + step" using Suc.prems(4,5) by simp
  moreover have "(th + step) + step * int n \<le> maxInt"
    using Suc.prems(6) by (simp add: algebra_simps)
  ultimately have "rowLoop h step bound (row + 1) (rows @ [row], th + step)
      = ((rows @ [row]) @ [row + 1 .. row + 1 + int n - 1], th + step + step * int n)"
    using Suc.prems(5) by (intro Suc.IH)
  moreover have "[row .. row + int (Suc n) - 1] = row # [row + 1 .. row + 1 + int n - 1]"
    by (subst upto_rec1) simp_all
  ultimately show ?case
    using th row by (simp add: rowLoop_next a algebra_simps)
qed

lemma textRows_borderless: "\<not> borders t \<Longrightarrow> textRows t h y rows = rows"
  by (induction rows arbitrary: y) simp_all

lemma textRows_borders: "borders t \<Longrightarrow> textRows t h y rows = take (nat (h div 2 - y)) rows"
proof (induction rows arbitrary: y)
  case Nil
  then show ?case by simp
next
  case (Cons row rows)
  show ?case
  proof (cases "2 * y + 1 \<ge> h")
    case True
    then have "h div 2 - y \<le> 0" by linarith
    then show ?thesis using Cons.prems True by simp
  next
    case False
    then have "0 < h div 2 - y" by linarith
    then have "nat (h div 2 - y) = Suc (nat (h div 2 - (y + 1)))" by linarith
    then show ?thesis using Cons False by simp
  qed
qed


lemma fixed_rows_run:
  assumes "0 \<le> f" "f \<le> L" "\<forall>i<nat f. step * int i < h" "0 \<le> step" "step * f \<le> maxInt"
  shows "rowLoop h step (min f L) 0 ([], 0) = ([0 .. f - 1], step * f)"
  using rowLoop_run [of "nat f" 0 step h 0 "min f L" "[]"] assms by simp

lemma scroll_rows_run:
  assumes "0 \<le> n" "\<forall>i<nat n. th + step * int i < h" "start + n \<le> L"
    "start + n = L \<or> h \<le> th + step * n"
    and "0 \<le> th" "0 \<le> step" "th + step * n \<le> maxInt"
  shows "fst (rowLoop h step L start (rows, th)) = rows @ [start .. start + n - 1]"
  using rowLoop_run [of "nat n" th step h start L rows] assms by simp

lemma rows_at_bottom:
  assumes f: "0 \<le> fixedRows u" "fixedRows u < capacity u h"
    and ro: "rowOffset u = sel + 1 - capacity u h" "0 \<le> rowOffset u"
    and sel: "sel < rowCount u"
    and hm: "h < maxInt"
  shows "textRows u h 0 (visibleRowList u h)
           = [0 .. fixedRows u - 1] @ [fixedRows u + rowOffset u .. sel]"
proof -
  define fr where "fr = fixedRows u"
  define L where "L = len64 (cells u)"
  define c where "c = capacity u h"
  define start where "start = fr + rowOffset u"
  have start: "start = fr + sel + 1 - c" "fr \<le> start" "start \<le> sel"
    using f ro by (simp_all add: start_def fr_def c_def)
  have selL: "sel < L" using sel by (simp add: L_def rowCount_def)
  have frL: "fr \<le> L" "0 \<le> fr" "fr < c" using start selL f by (simp_all add: fr_def c_def)
  have Lm: "L \<le> maxInt" by (simp add: L_def len64_bounds)
  then have "isInt (fixedRows u + rowOffset u)"
    using start selL frL by (simp add: isInt_def minInt_def start_def fr_def)
  then have a64: "add64 fr (rowOffset u) = start"
    by (simp add: add64_plain start_def fr_def)
  show ?thesis
  proof (cases "borders u")
    case False
    then have c: "c = h" by (simp add: c_def capacity_def)
    have "\<forall>i<nat fr. 1 * int i < h" using frL c by auto
    then have st1: "rowLoop h 1 (min fr L) 0 ([], 0) = ([0 .. fr - 1], 1 * fr)"
      using frL Lm by (intro fixed_rows_run) simp_all
    have "fst (rowLoop h 1 L start ([0 .. fr - 1], 1 * fr))
        = [0 .. fr - 1] @ [start .. start + (h - fr) - 1]"
      using frL c start selL hm by (intro scroll_rows_run) auto
    moreover have "start + (h - fr) - 1 = sel" using start c by simp
    ultimately have "visibleRowList u h = [0 .. fr - 1] @ [start .. sel]"
      using st1 False
      by (simp add: visibleRowList_def rowStepOf_def Let_def fr_def [symmetric]
          L_def [symmetric] a64)
    then show ?thesis
      using False by (simp add: textRows_borderless fr_def start_def)
  next
    case True
    then have c: "c = half h" by (simp add: c_def capacity_def)
    have h: "0 < h" "h div 2 = c" "2 * c \<le> h" "h \<le> 2 * c + 1"
      using frL c by (auto simp: half_def split: if_splits)
    have "\<forall>i<nat fr. 2 * int i < h" using frL h by auto
    then have st1: "rowLoop h 2 (min fr L) 0 ([], 0) = ([0 .. fr - 1], 2 * fr)"
      using frL h hm by (intro fixed_rows_run) simp_all
    have vis: "visibleRowList u h = fst (rowLoop h 2 L start ([0 .. fr - 1], 2 * fr))"
      using st1 True
      by (simp add: visibleRowList_def rowStepOf_def Let_def fr_def [symmetric]
          L_def [symmetric] a64)
    have len: "length ([0 .. fr - 1] @ [start .. sel]) = nat c"
      using frL start by (simp add: nat_add_distrib [symmetric])
    show ?thesis
    proof (cases "h = 2 * c \<or> sel + 1 = L")
      case exact: True
      have "fst (rowLoop h 2 L start ([0 .. fr - 1], 2 * fr))
          = [0 .. fr - 1] @ [start .. start + (c - fr) - 1]"
        using frL h start selL exact hm by (intro scroll_rows_run) auto
      moreover have "start + (c - fr) - 1 = sel" using start by simp
      ultimately have "visibleRowList u h = [0 .. fr - 1] @ [start .. sel]"
        using vis by simp
      then show ?thesis
        using True len h by (simp add: textRows_borders fr_def start_def)
    next
      case more: False
      have "fst (rowLoop h 2 L start ([0 .. fr - 1], 2 * fr))
          = [0 .. fr - 1] @ [start .. start + (c - fr + 1) - 1]"
        using frL h start selL more hm by (intro scroll_rows_run) auto
      moreover have "start + (c - fr + 1) - 1 = sel + 1" using start by simp
      moreover have "[start .. sel + 1] = [start .. sel] @ [sel + 1]"
        using start by (subst upto_rec2) simp_all
      ultimately have "visibleRowList u h = ([0 .. fr - 1] @ [start .. sel]) @ [sel + 1]"
        using vis by simp
      then show ?thesis
        using True len h by (simp add: textRows_borders fr_def start_def)
    qed
  qed
qed


lemma visibleRowList_columnOffset [simp]:
  "visibleRowList (t\<lparr>columnOffset := k\<rparr>) h = visibleRowList t h"
  by (simp add: visibleRowList_def rowStepOf_def)

lemma textRows_columnOffset [simp]:
  "textRows (t\<lparr>columnOffset := k\<rparr>) h y rows = textRows t h y rows"
  by (induction rows arbitrary: y) simp_all

lemma selectionRowOffset_rows [simp]:
  "selectedRow (selectionRowOffset t h) = selectedRow t"
  "fixedRows (selectionRowOffset t h) = fixedRows t"
  by (simp_all add: selectionRowOffset_def Let_def)

lemma fitTrackEnd_rows [simp]:
  "selectedRow (fitTrackEnd t h) = selectedRow t" "fixedRows (fitTrackEnd t h) = fixedRows t"
  by (simp_all add: fitTrackEnd_def)

lemma followEnd_rows [simp]:
  "selectedRow (followEnd t h) = selectedRow t" "fixedRows (followEnd t h) = fixedRows t"
  by (simp_all add: followEnd_def)

lemma nonNegRowOffset_rows [simp]:
  "selectedRow (nonNegRowOffset t) = selectedRow t" "fixedRows (nonNegRowOffset t) = fixedRows t"
  by (simp_all add: nonNegRowOffset_def)

lemma setVisibleRows_fixedRows [simp]: "fixedRows (setVisibleRows t h) = fixedRows t"
  by (simp add: setVisibleRows_def)

lemma clampColumnOffset_rows [simp]:
  "fixedRows (clampColumnOffset t) = fixedRows t"
  "trackEnd (clampColumnOffset t) = trackEnd t"
  by (simp_all add: clampColumnOffset_def Let_def)

lemma clampOffsets_rows [simp]:
  "fixedRows (clampOffsets t h) = fixedRows t"
  by (simp_all add: clampOffsets_def clampRowOffset_def)

lemma clampOffsets_trackEnd:
  "trackEnd (clampOffsets t h) = trackEnd (clampRowOffset (setVisibleRows t h) h)"
  by (simp add: clampOffsets_def)

lemma clampOffsets_selectedRow [simp]: "selectedRow (clampOffsets t h) = selectedRow t"
proof -
  have "selectedRow (clampColumnOffset u) = selectedRow u" for u
    by (simp add: clampColumnOffset_def Let_def)
  then show ?thesis
    by (simp add: clampOffsets_def clampRowOffset_def setVisibleRows_def)
qed

lemma setVisibleRows_rows [simp]:
  "rowsSelectable (setVisibleRows t h) = rowsSelectable t"
  "selectedRow (setVisibleRows t h) = selectedRow t"
  "rowOffset (setVisibleRows t h) = rowOffset t"
  "rowCount (setVisibleRows t h) = rowCount t"
  "capacity (setVisibleRows t h) h' = capacity t h'"
  "pastBottom (setVisibleRows t h) h' = pastBottom t h'"
  "moderate (setVisibleRows t h) h' = moderate t h'"
  by (simp_all add: setVisibleRows_def rowCount_def capacity_def pastBottom_def moderate_def)

lemma paint_pushes_offset:
  assumes "rowsSelectable t" "selectedRow t < rowCount t" "pastBottom t height"
    "moderate t height"
    and d: "Draw t width height = Inr t1"
  shows "rowOffset t1 = max 0 (selectedRow t + 1 - capacity t height)"
    and "selectedRow t1 = selectedRow t"
    and "trackEnd t1 \<longleftrightarrow> borders t \<and> 0 < height \<and> odd height \<and> selectedRow t = rowCount t - 1"
    and "0 \<le> fixedRows t \<Longrightarrow> fixedRows t < capacity t height \<Longrightarrow>
         capacity t height \<le> selectedRow t + 1 \<Longrightarrow>
         textRows t1 height 0 (visibleRowList t1 height)
           = [0 .. fixedRows t - 1] @ [fixedRows t + rowOffset t1 .. selectedRow t]"
proof -
  obtain s :: scan where t1: "t1 = (clampOffsets t height)\<lparr>columnOffset := skipped s\<rparr>"
    using Draw_Inr [OF d] by blast
  let ?u = "setVisibleRows t height"
  have pre: "rowsSelectable ?u" "selectedRow ?u < rowCount ?u" "pastBottom ?u height"
    "moderate ?u height"
    using assms(1-4) by simp_all
  show ro: "rowOffset t1 = max 0 (selectedRow t + 1 - capacity t height)"
    using clampRowOffset_pastBottom(1) [OF pre] by (simp add: t1 clampOffsets_rowOffset)
  show "selectedRow t1 = selectedRow t"
    by (simp add: t1)
  show "trackEnd t1 \<longleftrightarrow> borders t \<and> 0 < height \<and> odd height \<and> selectedRow t = rowCount t - 1"
    using clampRowOffset_pastBottom(2) [OF pre] by (simp add: t1 clampOffsets_trackEnd)
  show "textRows t1 height 0 (visibleRowList t1 height)
           = [0 .. fixedRows t - 1] @ [fixedRows t + rowOffset t1 .. selectedRow t]"
    if f: "0 \<le> fixedRows t" "fixedRows t < capacity t height"
      "capacity t height \<le> selectedRow t + 1"
  proof -
    let ?c = "clampOffsets t height"
    have "textRows ?c height 0 (visibleRowList ?c height)
        = [0 .. fixedRows ?c - 1] @ [fixedRows ?c + rowOffset ?c .. selectedRow t]"
    proof (rule rows_at_bottom)
      show "0 \<le> fixedRows ?c" "fixedRows ?c < capacity ?c height"
        using f by (simp_all add: capacity_def)
      show "rowOffset ?c = selectedRow t + 1 - capacity ?c height" "0 \<le> rowOffset ?c"
        using ro f by (simp_all add: t1 capacity_def)
      show "selectedRow t < rowCount ?c"
        using assms(2) by (simp add: rowCount_def)
      show "height < maxInt"
        using moderate_bounds(8) [OF assms(4)] by (simp add: maxInt_def)
    qed
    then show ?thesis by (simp add: t1)
  qed
qed

lemma fourDowns_pre:
  "rowsSelectable fourDowns \<and> selectedRow fourDowns = 4 \<and> rowCount fourDowns = 5
   \<and> pastBottom fourDowns 3 \<and> \<not> borders fourDowns \<and> capacity fourDowns 3 = 3
   \<and> fixedRows fourDowns = 0 \<and> moderate fourDowns 3"
  by code_simp

lemma fourDowns_draw:
  "Draw fourDowns 80 3 = Inr (fourDowns\<lparr>visibleRows := 3, rowOffset := 2, trackEnd := False\<rparr>)"
  by code_simp

lemma borderedLast_draw:
  "rowsSelectable borderedLast \<and> selectedRow borderedLast = 4 \<and> \<not> trackEnd borderedLast
   \<and> pastBottom borderedLast 5
   \<and> Draw borderedLast 80 5
       = Inr (borderedLast\<lparr>visibleRows := 2, rowOffset := 3, trackEnd := True\<rparr>)"
  by code_simp

lemma beyondLast_draw:
  "rowsSelectable beyondLast \<and> selectedRow beyondLast = 7 \<and> pastBottom beyondLast 3
   \<and> Draw beyondLast 80 3
       = Inr (beyondLast\<lparr>visibleRows := 3, rowOffset := 2, trackEnd := True\<rparr>)"
  by code_simp


lemma last_rows_at_bottom:
  assumes "start \<le> sel"
  shows "[0 .. f - 1] @ [start .. sel] \<noteq> [] \<and> last ([0 .. f - 1] @ [start .. sel]) = sel"
proof -
  have "[start .. sel] = [start .. sel - 1] @ [sel]"
    using assms by (rule upto_rec2)
  then show ?thesis by simp
qed

lemma fixedFull_draw:
  "rowsSelectable fixedFull \<and> selectedRow fixedFull = 4 \<and> pastBottom fixedFull 3
   \<and> Draw fixedFull 80 3
       = Inr (fixedFull\<lparr>visibleRows := 3, rowOffset := 2, trackEnd := False\<rparr>)
   \<and> visibleRowList (fixedFull\<lparr>visibleRows := 3, rowOffset := 2, trackEnd := False\<rparr>) 3
       = [0, 1, 2]"
  by code_simp

lemma negativeOffset_draw:
  "rowsSelectable negativeOffset \<and> selectedRow negativeOffset = 0
   \<and> pastBottom negativeOffset 3
   \<and> Draw negativeOffset 80 3
       = Inr (negativeOffset\<lparr>visibleRows := 3, rowOffset := 0, trackEnd := False\<rparr>)
   \<and> visibleRowList (negativeOffset\<lparr>visibleRows := 3, rowOffset := 0, trackEnd := False\<rparr>) 3
       = [0, 1, 2]"
  by code_simp

lemma deepOffset_draw:
  "rowsSelectable deepOffset \<and> selectedRow deepOffset = 2 \<and> rowCount deepOffset = 5
   \<and> isInt (rowOffset deepOffset) \<and> pastBottom deepOffset 3
   \<and> Draw deepOffset 80 3
       = Inr (deepOffset\<lparr>visibleRows := 3, rowOffset := 2, trackEnd := True\<rparr>)
   \<and> visibleRowList (deepOffset\<lparr>visibleRows := 3, rowOffset := 2, trackEnd := True\<rparr>) 3
       = [2, 3, 4]"
  by code_simp

text \<open>
  Claim C4 as stated (whenever rows are selectable and the selected row is at or past
  the bottom edge, the paint makes it the last visible row and disables track-end) fails
  in these cases. With borders, height 5 and the last of the 5 rows selected, the paint
  ends with track-end enabled: the fit check that follows re-enables it. With row 7
  selected on the 5-row table the paint sets the row offset to 2 and enables track-end:
  the selected row is no row of the table. With 3 fixed rows and height 3 the rows
  shown are 0, 1, 2 and the selected row 4 is not among them. With a requested row
  offset of -5 and row 0 selected the test holds, and the selected row is shown first.
  With a requested row offset of \<open>minInt + 3\<close> and row 2 selected the row lies far past
  the bottom edge, but the difference in the test of the paint wraps around: the push is
  not taken, track-end is enabled, and row 2 is shown first, at row offset 2.
\<close>

theorem C4_counterexample:
  "rowsSelectable borderedLast \<and> selectedRow borderedLast = 4 \<and> \<not> trackEnd borderedLast
   \<and> pastBottom borderedLast 5
   \<and> Draw borderedLast 80 5
       = Inr (borderedLast\<lparr>visibleRows := 2, rowOffset := 3, trackEnd := True\<rparr>)
   \<and> rowsSelectable beyondLast \<and> selectedRow beyondLast = 7 \<and> pastBottom beyondLast 3
   \<and> Draw beyondLast 80 3
       = Inr (beyondLast\<lparr>visibleRows := 3, rowOffset := 2, trackEnd := True\<rparr>)
   \<and> rowsSelectable fixedFull \<and> selectedRow fixedFull = 4 \<and> pastBottom fixedFull 3
   \<and> Draw fixedFull 80 3
       = Inr (fixedFull\<lparr>visibleRows := 3, rowOffset := 2, trackEnd := False\<rparr>)
   \<and> visibleRowList (fixedFull\<lparr>visibleRows := 3, rowOffset := 2, trackEnd := False\<rparr>) 3
       = [0, 1, 2]
   \<and> rowsSelectable negativeOffset \<and> selectedRow negativeOffset = 0
   \<and> pastBottom negativeOffset 3
   \<and> Draw negativeOffset 80 3
       = Inr (negativeOffset\<lparr>visibleRows := 3, rowOffset := 0, trackEnd := False\<rparr>)
   \<and> visibleRowList (negativeOffset\<lparr>visibleRows := 3, rowOffset := 0, trackEnd := False\<rparr>) 3
       = [0, 1, 2]
   \<and> rowsSelectable deepOffset \<and> selectedRow deepOffset = 2 \<and> rowCount deepOffset = 5
   \<and> isInt (rowOffset deepOffset) \<and> pastBottom deepOffset 3
   \<and> Draw deepOffset 80 3
       = Inr (deepOffset\<lparr>visibleRows := 3, rowOffset := 2, trackEnd := True\<rparr>)
   \<and> visibleRowList (deepOffset\<lparr>visibleRows := 3, rowOffset := 2, trackEnd := True\<rparr>) 3
       = [2, 3, 4]"
  using borderedLast_draw beyondLast_draw fixedFull_draw negativeOffset_draw deepOffset_draw
  by simp

text \<open>
  Claim C4, amended: if rows are selectable, the selected row is a row of the table, it
  lies at or past the bottom edge for the current row offset, and the number of rows and
  the magnitudes of selected row, row offset, count of fixed rows and height are at
  most \<open>2 ^ 60\<close> (so that the arithmetic of the clamp does not wrap), then a paint that
  returns sets the row offset to \<open>max 0 (selectedRow + 1 - capacity)\<close> and keeps the
  selected row; with \<open>0 \<le> fixedRows < capacity \<le> selectedRow + 1\<close> the selected row
  is the last row whose text line is shown; track-end is off after the paint, except
  with borders, an odd height and the last row selected. In the scenario (5 rows of 3
  columns, no borders, rows selectable, four Down commands from row 0, height 3) the
  selected row is 4 and a paint that returns leaves row offset 2, track-end off and the
  rows 2, 3, 4 shown, for every width.
\<close>

theorem C4_selected_row_pushed_to_bottom:
  "(rowsSelectable t \<and> selectedRow t < rowCount t \<and> pastBottom t height
      \<and> moderate t height \<and> Draw t width height = Inr t1 \<longrightarrow>
        rowOffset t1 = max 0 (selectedRow t + 1 - capacity t height)
        \<and> selectedRow t1 = selectedRow t
        \<and> (trackEnd t1 \<longleftrightarrow>
             borders t \<and> 0 < height \<and> odd height \<and> selectedRow t = rowCount t - 1)
        \<and> (0 \<le> fixedRows t \<and> fixedRows t < capacity t height
             \<and> capacity t height \<le> selectedRow t + 1 \<longrightarrow>
               textRows t1 height 0 (visibleRowList t1 height) \<noteq> []
               \<and> last (textRows t1 height 0 (visibleRowList t1 height)) = selectedRow t))
   \<and> selectedRow (SetSelectable grid53 True False) = 0 \<and> selectedRow fourDowns = 4
   \<and> (Draw fourDowns width 3 = Inr t2 \<longrightarrow>
         selectedRow t2 = 4 \<and> rowOffset t2 = 2 \<and> \<not> trackEnd t2
         \<and> textRows t2 3 0 (visibleRowList t2 3) = [2, 3, 4])"
proof (intro conjI impI)
  assume a: "rowsSelectable t \<and> selectedRow t < rowCount t \<and> pastBottom t height
      \<and> moderate t height \<and> Draw t width height = Inr t1"
  then have pre: "rowsSelectable t" "selectedRow t < rowCount t" "pastBottom t height"
    "moderate t height" "Draw t width height = Inr t1"
    by simp_all
  note p = paint_pushes_offset [OF pre]
  show "rowOffset t1 = max 0 (selectedRow t + 1 - capacity t height)" by (rule p(1))
  show "selectedRow t1 = selectedRow t" by (rule p(2))
  show "trackEnd t1 \<longleftrightarrow>
      borders t \<and> 0 < height \<and> odd height \<and> selectedRow t = rowCount t - 1"
    by (rule p(3))
  assume f: "0 \<le> fixedRows t \<and> fixedRows t < capacity t height
      \<and> capacity t height \<le> selectedRow t + 1"
  then have rows: "textRows t1 height 0 (visibleRowList t1 height)
      = [0 .. fixedRows t - 1] @ [fixedRows t + rowOffset t1 .. selectedRow t]"
    by (intro p(4)) simp_all
  have "fixedRows t + rowOffset t1 \<le> selectedRow t"
    using f by (simp add: p(1))
  then have "[0 .. fixedRows t - 1] @ [fixedRows t + rowOffset t1 .. selectedRow t] \<noteq> []
      \<and> last ([0 .. fixedRows t - 1] @ [fixedRows t + rowOffset t1 .. selectedRow t])
          = selectedRow t"
    by (rule last_rows_at_bottom)
  then show "textRows t1 height 0 (visibleRowList t1 height) \<noteq> []"
    "last (textRows t1 height 0 (visibleRowList t1 height)) = selectedRow t"
    unfolding rows by blast+
next
  show "selectedRow (SetSelectable grid53 True False) = 0"
    by (simp add: SetSelectable_def grid53_def NewTable_def)
  show "selectedRow fourDowns = 4"
    using fourDowns_pre by simp
next
  assume d: "Draw fourDowns width 3 = Inr t2"
  have pre: "rowsSelectable fourDowns" "selectedRow fourDowns < rowCount fourDowns"
    "pastBottom fourDowns 3" "moderate fourDowns 3"
    using fourDowns_pre by simp_all
  note p = paint_pushes_offset [OF pre d]
  show "selectedRow t2 = 4" using p(2) fourDowns_pre by simp
  show ro: "rowOffset t2 = 2" using p(1) fourDowns_pre by simp
  show "\<not> trackEnd t2" using p(3) fourDowns_pre by simp
  have "textRows t2 3 0 (visibleRowList t2 3)
      = [0 .. fixedRows fourDowns - 1] @ [fixedRows fourDowns + rowOffset t2 .. selectedRow fourDowns]"
    using fourDowns_pre by (intro p(4)) simp_all
  moreover have "[2 .. 4] = [2, 3, 4 :: int]" by code_simp
  ultimately show "textRows t2 3 0 (visibleRowList t2 3) = [2, 3, 4]"
    using fourDowns_pre ro by simp
qed

theorem C4_selected_row_pushed_to_bottom_witness:
  "rowsSelectable fourDowns \<and> selectedRow fourDowns < rowCount fourDowns
   \<and> pastBottom fourDowns 3 \<and> moderate fourDowns 3
   \<and> Draw fourDowns 80 3
       = Inr (fourDowns\<lparr>visibleRows := 3, rowOffset := 2, trackEnd := False\<rparr>)
   \<and> rowOffset (fourDowns\<lparr>visibleRows := 3, rowOffset := 2, trackEnd := False\<rparr>) = 2
   \<and> textRows (fourDowns\<lparr>visibleRows := 3, rowOffset := 2, trackEnd := False\<rparr>) 3 0
        (visibleRowList (fourDowns\<lparr>visibleRows := 3, rowOffset := 2, trackEnd := False\<rparr>) 3)
       = [2, 3, 4]
   \<and> last (textRows (fourDowns\<lparr>visibleRows := 3, rowOffset := 2, trackEnd := False\<rparr>) 3 0
        (visibleRowList (fourDowns\<lparr>visibleRows := 3, rowOffset := 2, trackEnd := False\<rparr>) 3))
       = selectedRow fourDowns"
  using C4_selected_row_pushed_to_bottom [of fourDowns 3 80
      "fourDowns\<lparr>visibleRows := 3, rowOffset := 2, trackEnd := False\<rparr>"
      "fourDowns\<lparr>visibleRows := 3, rowOffset := 2, trackEnd := False\<rparr>"]
    fourDowns_draw fourDowns_pre
  by simp

end
